theory Spec2Isabelle
  imports Main "HOL-Library.Word"
begin

unbundle bit_operations_syntax

section \<open>Basic types of pagestore\_smgr.c\<close>

text \<open>
  Fixed-width C types are words: \<open>Oid\<close> and \<open>BlockNumber\<close> are \<open>uint32\<close>,
  \<open>XLogRecPtr\<close> is \<open>uint64\<close>.  A page is the \<open>BLCKSZ\<close> bytes of a buffer.
\<close>

type_synonym Oid = "32 word"
type_synonym BlockNumber = "32 word"
type_synonym XLogRecPtr = "64 word"
type_synonym byte = "8 word"
type_synonym page = "byte list"

definition InvalidOid :: Oid where
  "InvalidOid = 0"

definition InvalidXLogRecPtr :: XLogRecPtr where
  "InvalidXLogRecPtr = 0"

definition OidIsValid :: "Oid \<Rightarrow> bool" where
  "OidIsValid objectId = (objectId \<noteq> InvalidOid)"

datatype ForkNumber =
  InvalidForkNumber | MAIN_FORKNUM | FSM_FORKNUM | VISIBILITYMAP_FORKNUM | INIT_FORKNUM

record RelFileNode =
  spcNode :: Oid
  dbNode :: Oid
  relNode :: Oid

record BufferTag =
  rnode :: RelFileNode
  forkNum :: ForkNumber
  blockNum :: BlockNumber

text \<open>
  \<open>smgr_relpersistence\<close> is a \<open>char\<close>: zero (not known), one of the three
  \<open>RELPERSISTENCE_*\<close> letters, or anything else (the \<open>default:\<close> arm of every switch).
\<close>

datatype relpersistence =
  RELPERSISTENCE_UNKNOWN
  | RELPERSISTENCE_PERMANENT
  | RELPERSISTENCE_TEMP
  | RELPERSISTENCE_UNLOGGED
  | RELPERSISTENCE_OTHER byte

record SMgrRelation =
  smgr_rnode :: RelFileNode
  smgr_relpersistence :: relpersistence

text \<open>
  Every \<open>elog\<close>/\<open>ereport\<close> at level \<open>ERROR\<close> or \<open>PANIC\<close> of the modelled functions is a
  value of \<open>pg_error\<close>.  A call ends in one of three ways: it returns a result, it raises
  (the state reached when the error is thrown is kept), or it never returns.
  \<open>Assert\<close>s are compiled out, as in a production build.
\<close>

datatype elevel = ERROR | PANIC

datatype pg_error =
  unlogged_build_not_finished
  | evicted_with_zero_LSN
  | unexpected_neon_message_tag byte
  | no_data_left_in_message
  | insufficient_data_left_in_message
  | invalid_string_in_message
  | invalid_message_format
  | unknown_persistence
  | unknown_relpersistence byte
  | cluster_size_limit_exceeded
  | failed_to_locate_backup_block
  | page_server_returned_error
  | unexpected_response
  | not_reachable

fun error_level :: "pg_error \<Rightarrow> elevel" where
  "error_level evicted_with_zero_LSN = PANIC"
| "error_level failed_to_locate_backup_block = PANIC"
| "error_level _ = ERROR"

datatype ('a, 's) outcome = Returns 'a 's | Raises pg_error 's | Diverges

section \<open>Unlogged-build transaction hook\<close>

datatype UnloggedBuildPhase =
  UNLOGGED_BUILD_NOT_IN_PROGRESS
  | UNLOGGED_BUILD_PHASE_1
  | UNLOGGED_BUILD_PHASE_2
  | UNLOGGED_BUILD_NOT_PERMANENT

datatype XactEvent =
  XACT_EVENT_COMMIT
  | XACT_EVENT_PARALLEL_COMMIT
  | XACT_EVENT_ABORT
  | XACT_EVENT_PARALLEL_ABORT
  | XACT_EVENT_PREPARE
  | XACT_EVENT_PRE_COMMIT
  | XACT_EVENT_PARALLEL_PRE_COMMIT
  | XACT_EVENT_PRE_PREPARE

text \<open>The two file-level statics \<open>unlogged_build_rel\<close> and \<open>unlogged_build_phase\<close>.\<close>

record unlogged_build =
  unlogged_build_rel :: "SMgrRelation option"
  unlogged_build_phase :: UnloggedBuildPhase

definition forget_build :: "unlogged_build \<Rightarrow> unlogged_build" where
  "forget_build b =
     b\<lparr>unlogged_build_rel := None, unlogged_build_phase := UNLOGGED_BUILD_NOT_IN_PROGRESS\<rparr>"

definition commit_like :: "unlogged_build \<Rightarrow> (unit, unlogged_build) outcome" where
  "commit_like b =
     (if unlogged_build_phase b \<noteq> UNLOGGED_BUILD_NOT_IN_PROGRESS
      then Raises unlogged_build_not_finished (forget_build b)
      else Returns () b)"

fun AtEOXact_neon :: "XactEvent \<Rightarrow> unlogged_build \<Rightarrow> (unit, unlogged_build) outcome" where
  "AtEOXact_neon XACT_EVENT_ABORT b = Returns () (forget_build b)"
| "AtEOXact_neon XACT_EVENT_PARALLEL_ABORT b = Returns () (forget_build b)"
| "AtEOXact_neon XACT_EVENT_COMMIT b = commit_like b"
| "AtEOXact_neon XACT_EVENT_PARALLEL_COMMIT b = commit_like b"
| "AtEOXact_neon XACT_EVENT_PREPARE b = commit_like b"
| "AtEOXact_neon XACT_EVENT_PRE_COMMIT b = commit_like b"
| "AtEOXact_neon XACT_EVENT_PARALLEL_PRE_COMMIT b = commit_like b"
| "AtEOXact_neon XACT_EVENT_PRE_PREPARE b = commit_like b"

definition is_abort_event :: "XactEvent \<Rightarrow> bool" where
  "is_abort_event ev = (ev = XACT_EVENT_ABORT \<or> ev = XACT_EVENT_PARALLEL_ABORT)"

section \<open>Messages of the page server protocol\<close>

datatype NeonMessageTag =
  T_NeonExistsRequest
  | T_NeonNblocksRequest
  | T_NeonGetPageRequest
  | T_NeonDbSizeRequest
  | T_NeonExistsResponse
  | T_NeonNblocksResponse
  | T_NeonGetPageResponse
  | T_NeonErrorResponse
  | T_NeonDbSizeResponse

text \<open>
  A message is its tag and the fields of the struct that the tag selects.  Requests carry
  \<open>latest\<close> and \<open>lsn\<close> first (the embedded \<open>NeonRequest\<close>).  An error response carries
  the bytes of its C string, without the terminator.
\<close>

datatype NeonMessage =
  NeonExistsRequest bool XLogRecPtr RelFileNode ForkNumber
  | NeonNblocksRequest bool XLogRecPtr RelFileNode ForkNumber
  | NeonGetPageRequest bool XLogRecPtr RelFileNode ForkNumber BlockNumber
  | NeonDbSizeRequest bool XLogRecPtr Oid
  | NeonExistsResponse bool
  | NeonNblocksResponse "32 word"
  | NeonGetPageResponse page
  | NeonErrorResponse "byte list"
  | NeonDbSizeResponse "64 word"

section \<open>The backend's surroundings\<close>

text \<open>
  Everything the file calls but does not define (WAL insertion, the last-written-LSN
  service, the relation-size cache, the local file cache, the buffer mapping table, md.c)
  is a collaborator.  A call that acts on a collaborator is appended to \<open>calls\<close>, oldest
  first; a call that asks a collaborator something reads a field of \<open>world\<close>.
\<close>

datatype call =
  Call_log_newpage RelFileNode ForkNumber BlockNumber page
  | Call_XLogFlush XLogRecPtr
  | Call_SetLastWrittenLSNForBlock XLogRecPtr RelFileNode ForkNumber BlockNumber
  | Call_SetLastWrittenLSNForRelation XLogRecPtr RelFileNode ForkNumber
  | Call_lfc_evict RelFileNode ForkNumber BlockNumber
  | Call_lfc_write RelFileNode ForkNumber BlockNumber page
  | Call_LWLockAcquire BufferTag
  | Call_LWLockRelease BufferTag
  | Call_XLogWaitForReplayOf XLogRecPtr
  | Call_mdextend RelFileNode ForkNumber BlockNumber page

record XLogReaderState =
  EndRecPtr :: XLogRecPtr
  block_tags :: "byte \<rightharpoonup> (RelFileNode \<times> ForkNumber \<times> BlockNumber)"

record world =
  ShutdownRequestPending :: bool
  XLogInsertAllowed :: bool
  RecoveryInProgress :: bool
  am_walsender :: bool
  MyBackendType_is_startup :: bool
  IsAutoVacuumWorkerProcess :: bool
  max_cluster_size :: int
  GetZenithCurrentClusterSize :: nat
  PageGetLSN :: "page \<Rightarrow> XLogRecPtr"
  PageIsNew :: "page \<Rightarrow> bool"
  PageInit_result :: page
  log_newpage :: "RelFileNode \<Rightarrow> ForkNumber \<Rightarrow> BlockNumber \<Rightarrow> page \<Rightarrow> XLogRecPtr"
  GetXLogInsertRecPtr :: XLogRecPtr
  GetFlushRecPtr :: XLogRecPtr
  GetLastWrittenLSN :: "RelFileNode \<Rightarrow> ForkNumber \<Rightarrow> BlockNumber \<Rightarrow> XLogRecPtr"
  XLOG_BLCKSZ :: XLogRecPtr
  SizeOfXLogShortPHD :: XLogRecPtr
  wal_segment_size :: XLogRecPtr
  SizeOfXLogLongPHD :: XLogRecPtr
  relsize_cache :: "(RelFileNode \<times> ForkNumber) \<rightharpoonup> BlockNumber"
  BufTableLookup :: "BufferTag \<Rightarrow> int"
  mdnblocks :: "RelFileNode \<Rightarrow> ForkNumber \<Rightarrow> BlockNumber"
  REL_METADATA_PSEUDO_BLOCKNO :: BlockNumber
  old_redo_read_buffer_filter :: "(XLogReaderState \<Rightarrow> byte \<Rightarrow> bool) option"
  cast_n_blocks :: "NeonMessage \<Rightarrow> BlockNumber"
  calls :: "call list"

definition do_call :: "call \<Rightarrow> world \<Rightarrow> world" where
  "do_call c w = w\<lparr>calls := calls w @ [c]\<rparr>"

text \<open>
  Modelled from the spec: the relation-size cache (\<open>get/set/update_cached_relsize\<close>,
  relsize\_cache.c) is not among the sources.  The spec's words are "bump size cache to
  blk+1" and "seed the cache": \<open>set\<close> stores the size; \<open>update\<close> stores it unless a
  larger size is cached already.
\<close>

definition get_cached_relsize :: "RelFileNode \<Rightarrow> ForkNumber \<Rightarrow> world \<Rightarrow> BlockNumber option" where
  "get_cached_relsize rn fk w = relsize_cache w (rn, fk)"

definition set_cached_relsize :: "RelFileNode \<Rightarrow> ForkNumber \<Rightarrow> BlockNumber \<Rightarrow> world \<Rightarrow> world" where
  "set_cached_relsize rn fk sz w = w\<lparr>relsize_cache := (relsize_cache w)((rn, fk) \<mapsto> sz)\<rparr>"

definition update_cached_relsize :: "RelFileNode \<Rightarrow> ForkNumber \<Rightarrow> BlockNumber \<Rightarrow> world \<Rightarrow> world" where
  "update_cached_relsize rn fk sz w =
     (case relsize_cache w (rn, fk) of
        None \<Rightarrow> set_cached_relsize rn fk sz w
      | Some old \<Rightarrow> if old < sz then set_cached_relsize rn fk sz w else w)"

section \<open>Eviction-time WAL logging\<close>

text \<open>
  \<open>PageGetLSN\<close>, \<open>PageIsNew\<close> and \<open>PageInit\<close> are bufpage.h's; they are fields of
  \<open>world\<close>.  \<open>PageIsEmptyHeapPage\<close> compares the buffer with a page that \<open>PageInit\<close>
  has just initialised, byte by byte.
\<close>

definition PageIsEmptyHeapPage :: "world \<Rightarrow> page \<Rightarrow> bool" where
  "PageIsEmptyHeapPage w buffer = (buffer = PageInit_result w)"

definition log_newpage_copy ::
  "RelFileNode \<Rightarrow> ForkNumber \<Rightarrow> BlockNumber \<Rightarrow> page \<Rightarrow> world \<Rightarrow> XLogRecPtr \<times> world" where
  "log_newpage_copy rn fk blk pg w =
     (log_newpage w rn fk blk pg, do_call (Call_log_newpage rn fk blk pg) w)"

definition XLogFlush :: "XLogRecPtr \<Rightarrow> world \<Rightarrow> world" where
  "XLogFlush lsn w = (do_call (Call_XLogFlush lsn) w)\<lparr>GetFlushRecPtr := max (GetFlushRecPtr w) lsn\<rparr>"

definition neon_wallog_page ::
  "SMgrRelation \<Rightarrow> ForkNumber \<Rightarrow> BlockNumber \<Rightarrow> page \<Rightarrow> bool \<Rightarrow> world \<Rightarrow> (unit, world) outcome" where
  "neon_wallog_page reln forknum blocknum buffer force w =
     (let lsn = PageGetLSN w buffer in
      if ShutdownRequestPending w then Returns () w
      else if \<not> XLogInsertAllowed w then Returns () w
      else if (force \<or> forknum = FSM_FORKNUM \<or> forknum = VISIBILITYMAP_FORKNUM)
              \<and> \<not> RecoveryInProgress w
      then (let (recptr, w1) = log_newpage_copy (smgr_rnode reln) forknum blocknum buffer w;
                w2 = XLogFlush recptr w1
            in Returns ()
                 (do_call (Call_SetLastWrittenLSNForBlock recptr (smgr_rnode reln) forknum blocknum) w2))
      else if lsn = InvalidXLogRecPtr
      then (if PageIsNew w buffer \<or> PageIsEmptyHeapPage w buffer
            then Returns ()
                   (do_call (Call_SetLastWrittenLSNForBlock lsn (smgr_rnode reln) forknum blocknum) w)
            else Raises evicted_with_zero_LSN w)
      else Returns ()
             (do_call (Call_SetLastWrittenLSNForBlock lsn (smgr_rnode reln) forknum blocknum) w))"

section \<open>Request and response codec\<close>

fun messageTag :: "NeonMessage \<Rightarrow> NeonMessageTag" where
  "messageTag (NeonExistsRequest _ _ _ _) = T_NeonExistsRequest"
| "messageTag (NeonNblocksRequest _ _ _ _) = T_NeonNblocksRequest"
| "messageTag (NeonGetPageRequest _ _ _ _ _) = T_NeonGetPageRequest"
| "messageTag (NeonDbSizeRequest _ _ _) = T_NeonDbSizeRequest"
| "messageTag (NeonExistsResponse _) = T_NeonExistsResponse"
| "messageTag (NeonNblocksResponse _) = T_NeonNblocksResponse"
| "messageTag (NeonGetPageResponse _) = T_NeonGetPageResponse"
| "messageTag (NeonErrorResponse _) = T_NeonErrorResponse"
| "messageTag (NeonDbSizeResponse _) = T_NeonDbSizeResponse"

fun is_request :: "NeonMessage \<Rightarrow> bool" where
  "is_request (NeonExistsRequest _ _ _ _) = True"
| "is_request (NeonNblocksRequest _ _ _ _) = True"
| "is_request (NeonGetPageRequest _ _ _ _ _) = True"
| "is_request (NeonDbSizeRequest _ _ _) = True"
| "is_request _ = False"

text \<open>
  The numbering of \<open>NeonMessageTag\<close> and \<open>BLCKSZ\<close> come from headers that are not among
  the sources; they are the two fields of \<open>wire\<close>.
\<close>

record wire =
  tag_byte :: "NeonMessageTag \<Rightarrow> byte"
  BLCKSZ :: nat

text \<open>
  Modelled from the spec: the \<open>pq_send*\<close> writers and \<open>pq_getmsg*\<close> readers (pqformat.c)
  are not among the sources.  The spec's words are "all integers are network-order
  fixed-width", "error payloads are null-terminated" and "any decode that leaves trailing
  bytes is a protocol error".  A reader takes the message bytes and the cursor and gives
  the value read and the new cursor, or the error it raises.
\<close>

definition pq_sendbyte :: "byte \<Rightarrow> byte list \<Rightarrow> byte list" where
  "pq_sendbyte b s = s @ [b]"

definition be32 :: "32 word \<Rightarrow> byte list" where
  "be32 x = [ucast (drop_bit 24 x), ucast (drop_bit 16 x), ucast (drop_bit 8 x), ucast x]"

definition be64 :: "64 word \<Rightarrow> byte list" where
  "be64 x = [ucast (drop_bit 56 x), ucast (drop_bit 48 x), ucast (drop_bit 40 x),
             ucast (drop_bit 32 x), ucast (drop_bit 24 x), ucast (drop_bit 16 x),
             ucast (drop_bit 8 x), ucast x]"

fun of_be :: "byte list \<Rightarrow> 'a::len word" where
  "of_be [] = 0"
| "of_be (b # bs) = push_bit (8 * length bs) (ucast b) OR of_be bs"

definition pq_sendint32 :: "32 word \<Rightarrow> byte list \<Rightarrow> byte list" where
  "pq_sendint32 x s = s @ be32 x"

definition pq_sendint64 :: "64 word \<Rightarrow> byte list \<Rightarrow> byte list" where
  "pq_sendint64 x s = s @ be64 x"

definition pq_getmsgbyte :: "byte list \<Rightarrow> nat \<Rightarrow> pg_error + (byte \<times> nat)" where
  "pq_getmsgbyte msg cursor =
     (if cursor \<ge> length msg then Inl no_data_left_in_message
      else Inr (msg ! cursor, cursor + 1))"

definition pq_getmsgbytes :: "byte list \<Rightarrow> nat \<Rightarrow> nat \<Rightarrow> pg_error + (byte list \<times> nat)" where
  "pq_getmsgbytes msg datalen cursor =
     (if datalen > length msg - cursor then Inl insufficient_data_left_in_message
      else Inr (take datalen (drop cursor msg), cursor + datalen))"

definition pq_getmsgint4 :: "byte list \<Rightarrow> nat \<Rightarrow> pg_error + (32 word \<times> nat)" where
  "pq_getmsgint4 msg cursor =
     (case pq_getmsgbytes msg 4 cursor of
        Inl e \<Rightarrow> Inl e
      | Inr (bs, c) \<Rightarrow> Inr (of_be bs, c))"

definition pq_getmsgint64 :: "byte list \<Rightarrow> nat \<Rightarrow> pg_error + (64 word \<times> nat)" where
  "pq_getmsgint64 msg cursor =
     (case pq_getmsgbytes msg 8 cursor of
        Inl e \<Rightarrow> Inl e
      | Inr (bs, c) \<Rightarrow> Inr (of_be bs, c))"

definition pq_getmsgrawstring :: "byte list \<Rightarrow> nat \<Rightarrow> pg_error + (byte list \<times> nat)" where
  "pq_getmsgrawstring msg cursor =
     (let str = takeWhile (\<lambda>b. b \<noteq> 0) (drop cursor msg) in
      if cursor + length str \<ge> length msg then Inl invalid_string_in_message
      else Inr (str, cursor + length str + 1))"

definition pq_getmsgend :: "byte list \<Rightarrow> nat \<Rightarrow> pg_error + unit" where
  "pq_getmsgend msg cursor =
     (if cursor \<noteq> length msg then Inl invalid_message_format else Inr ())"

fun forknum_byte :: "ForkNumber \<Rightarrow> byte" where
  "forknum_byte InvalidForkNumber = 255"
| "forknum_byte MAIN_FORKNUM = 0"
| "forknum_byte FSM_FORKNUM = 1"
| "forknum_byte VISIBILITYMAP_FORKNUM = 2"
| "forknum_byte INIT_FORKNUM = 3"

definition bool_byte :: "bool \<Rightarrow> byte" where
  "bool_byte b = (if b then 1 else 0)"

definition pack_rel :: "RelFileNode \<Rightarrow> ForkNumber \<Rightarrow> byte list \<Rightarrow> byte list" where
  "pack_rel rn fk s =
     pq_sendbyte (forknum_byte fk)
       (pq_sendint32 (relNode rn) (pq_sendint32 (dbNode rn) (pq_sendint32 (spcNode rn) s)))"

definition pack_req :: "bool \<Rightarrow> XLogRecPtr \<Rightarrow> byte list \<Rightarrow> byte list" where
  "pack_req latest lsn s = pq_sendint64 lsn (pq_sendbyte (bool_byte latest) s)"

fun nm_pack_request :: "wire \<Rightarrow> NeonMessage \<Rightarrow> pg_error + byte list" where
  "nm_pack_request wr (NeonExistsRequest latest lsn rn fk) =
     Inr (pack_rel rn fk (pack_req latest lsn (pq_sendbyte (tag_byte wr T_NeonExistsRequest) [])))"
| "nm_pack_request wr (NeonNblocksRequest latest lsn rn fk) =
     Inr (pack_rel rn fk (pack_req latest lsn (pq_sendbyte (tag_byte wr T_NeonNblocksRequest) [])))"
| "nm_pack_request wr (NeonDbSizeRequest latest lsn db) =
     Inr (pq_sendint32 db (pack_req latest lsn (pq_sendbyte (tag_byte wr T_NeonDbSizeRequest) [])))"
| "nm_pack_request wr (NeonGetPageRequest latest lsn rn fk blk) =
     Inr (pq_sendint32 blk
            (pack_rel rn fk (pack_req latest lsn (pq_sendbyte (tag_byte wr T_NeonGetPageRequest) []))))"
| "nm_pack_request wr msg = Inl (unexpected_neon_message_tag (tag_byte wr (messageTag msg)))"

definition finish :: "byte list \<Rightarrow> nat \<Rightarrow> NeonMessage \<Rightarrow> pg_error + NeonMessage" where
  "finish msg cursor resp = (case pq_getmsgend msg cursor of Inl e \<Rightarrow> Inl e | Inr _ \<Rightarrow> Inr resp)"

definition nm_unpack_response :: "wire \<Rightarrow> byte list \<Rightarrow> pg_error + NeonMessage" where
  "nm_unpack_response wr s =
     (case pq_getmsgbyte s 0 of
        Inl e \<Rightarrow> Inl e
      | Inr (tag, c) \<Rightarrow>
          if tag = tag_byte wr T_NeonExistsResponse
          then (case pq_getmsgbyte s c of
                  Inl e \<Rightarrow> Inl e
                | Inr (b, c1) \<Rightarrow> finish s c1 (NeonExistsResponse (b \<noteq> 0)))
          else if tag = tag_byte wr T_NeonNblocksResponse
          then (case pq_getmsgint4 s c of
                  Inl e \<Rightarrow> Inl e
                | Inr (n, c1) \<Rightarrow> finish s c1 (NeonNblocksResponse n))
          else if tag = tag_byte wr T_NeonGetPageResponse
          then (case pq_getmsgbytes s (BLCKSZ wr) c of
                  Inl e \<Rightarrow> Inl e
                | Inr (pg, c1) \<Rightarrow> finish s c1 (NeonGetPageResponse pg))
          else if tag = tag_byte wr T_NeonDbSizeResponse
          then (case pq_getmsgint64 s c of
                  Inl e \<Rightarrow> Inl e
                | Inr (n, c1) \<Rightarrow> finish s c1 (NeonDbSizeResponse n))
          else if tag = tag_byte wr T_NeonErrorResponse
          then (case pq_getmsgrawstring s c of
                  Inl e \<Rightarrow> Inl e
                | Inr (str, c1) \<Rightarrow> finish s c1 (NeonErrorResponse str))
          else Inl (unexpected_neon_message_tag tag))"

text \<open>
  Modelled from the spec: the decoder of requests runs in the page server and is not among
  the sources.  The spec's words are "each message begins with a 1-byte tag", the body of
  each request ("u8 latest, u64 lsn, u32 spc, u32 db, u32 rel, u8 fork" for \<open>Exists\<close> and
  \<open>NBlocks\<close>, "u8 latest, u64 lsn, u32 db" for \<open>DbSize\<close>, and "u8 latest, u64 lsn, u32 spc,
  u32 db, u32 rel, u8 fork, u32 blk" for \<open>GetPage\<close>), and "any decode that leaves trailing
  bytes or encounters an unknown tag is a protocol error".  It is written with the readers
  that \<open>nm_unpack_response\<close> uses; \<open>then_read\<close> passes the value read and the cursor on,
  or the error.  A fork byte that is no fork number is refused.
\<close>

definition then_read :: "pg_error + ('a \<times> nat) \<Rightarrow> ('a \<Rightarrow> nat \<Rightarrow> pg_error + 'b) \<Rightarrow> pg_error + 'b" where
  "then_read x f = (case x of Inl e \<Rightarrow> Inl e | Inr (v, c) \<Rightarrow> f v c)"

definition byte_forknum :: "byte \<Rightarrow> ForkNumber option" where
  "byte_forknum b =
     (if b = 255 then Some InvalidForkNumber
      else if b = 0 then Some MAIN_FORKNUM
      else if b = 1 then Some FSM_FORKNUM
      else if b = 2 then Some VISIBILITYMAP_FORKNUM
      else if b = 3 then Some INIT_FORKNUM
      else None)"

definition unpack_req :: "byte list \<Rightarrow> nat \<Rightarrow> pg_error + ((bool \<times> XLogRecPtr) \<times> nat)" where
  "unpack_req s c =
     then_read (pq_getmsgbyte s c) (\<lambda>latest c1.
     then_read (pq_getmsgint64 s c1) (\<lambda>lsn c2.
     Inr ((latest \<noteq> 0, lsn), c2)))"

definition unpack_rel :: "byte list \<Rightarrow> nat \<Rightarrow> pg_error + ((RelFileNode \<times> ForkNumber) \<times> nat)" where
  "unpack_rel s c =
     then_read (pq_getmsgint4 s c) (\<lambda>spc c1.
     then_read (pq_getmsgint4 s c1) (\<lambda>db c2.
     then_read (pq_getmsgint4 s c2) (\<lambda>rel c3.
     then_read (pq_getmsgbyte s c3) (\<lambda>fork c4.
     case byte_forknum fork of
       None \<Rightarrow> Inl invalid_message_format
     | Some fk \<Rightarrow> Inr ((\<lparr>spcNode = spc, dbNode = db, relNode = rel\<rparr>, fk), c4)))))"

definition request_body :: "wire \<Rightarrow> byte \<Rightarrow> byte list \<Rightarrow> nat \<Rightarrow> pg_error + (NeonMessage \<times> nat)" where
  "request_body wr tag s c =
     (if tag = tag_byte wr T_NeonExistsRequest
      then then_read (unpack_req s c) (\<lambda>(latest, lsn) c1.
           then_read (unpack_rel s c1) (\<lambda>(rn, fk) c2.
           Inr (NeonExistsRequest latest lsn rn fk, c2)))
      else if tag = tag_byte wr T_NeonNblocksRequest
      then then_read (unpack_req s c) (\<lambda>(latest, lsn) c1.
           then_read (unpack_rel s c1) (\<lambda>(rn, fk) c2.
           Inr (NeonNblocksRequest latest lsn rn fk, c2)))
      else if tag = tag_byte wr T_NeonDbSizeRequest
      then then_read (unpack_req s c) (\<lambda>(latest, lsn) c1.
           then_read (pq_getmsgint4 s c1) (\<lambda>db c2.
           Inr (NeonDbSizeRequest latest lsn db, c2)))
      else if tag = tag_byte wr T_NeonGetPageRequest
      then then_read (unpack_req s c) (\<lambda>(latest, lsn) c1.
           then_read (unpack_rel s c1) (\<lambda>(rn, fk) c2.
           then_read (pq_getmsgint4 s c2) (\<lambda>blk c3.
           Inr (NeonGetPageRequest latest lsn rn fk blk, c3))))
      else Inl (unexpected_neon_message_tag tag))"

definition nm_unpack_request :: "wire \<Rightarrow> byte list \<Rightarrow> pg_error + NeonMessage" where
  "nm_unpack_request wr s =
     then_read (pq_getmsgbyte s 0) (\<lambda>tag c.
     then_read (request_body wr tag s c) (\<lambda>m c1. finish s c1 m))"

definition neon_wire :: wire where
  "neon_wire =
     \<lparr>tag_byte = (\<lambda>t. case t of
          T_NeonExistsRequest \<Rightarrow> 0 | T_NeonNblocksRequest \<Rightarrow> 1
        | T_NeonGetPageRequest \<Rightarrow> 2 | T_NeonDbSizeRequest \<Rightarrow> 3
        | T_NeonExistsResponse \<Rightarrow> 100 | T_NeonNblocksResponse \<Rightarrow> 101
        | T_NeonGetPageResponse \<Rightarrow> 102 | T_NeonErrorResponse \<Rightarrow> 103
        | T_NeonDbSizeResponse \<Rightarrow> 104),
      BLCKSZ = 8192\<rparr>"

section \<open>Prefetch ring\<close>

datatype PrefetchStatus = PRFS_UNUSED | PRFS_REQUESTED | PRFS_RECEIVED | PRFS_TAG_REMAINS

record PrefetchRequest =
  buftag :: BufferTag
  effective_request_lsn :: XLogRecPtr
  response :: "NeonMessage option"
  status :: PrefetchStatus
  my_ring_index :: nat

text \<open>
  \<open>MyPState\<close> together with the globals the prefetch functions read and write
  (\<open>readahead_buffer_size\<close>, \<open>flush_every_n_requests\<close>, \<open>prefetch_lsn\<close>, the four
  \<open>pgBufferUsage.prefetch\<close> counters) and the page server connection.

  The ring counters are \<open>uint64\<close> in C and \<open>nat\<close> here: they start at zero and advance
  by one per request, so they do not wrap; the places where C subtracts them are written
  with the wrap-around.  \<open>prf_buffer\<close> maps an array position to its slot; a pointer to a
  slot is its position.  \<open>prf_hash\<close> maps a buffer tag to the position of the slot
  entered for it.

  The connection (\<open>page_server->send/flush/receive\<close>) is scripted: \<open>ps_send\<close>,
  \<open>ps_flush\<close> and \<open>ps_receive\<close> list the answers the next calls get, and a call on an
  exhausted script fails (false, or \<open>NULL\<close>), as on a dead connection.  \<open>ps_sent\<close> lists
  the requests the connection has accepted.
\<close>

record pipeline =
  ring_unused :: nat
  ring_flush :: nat
  ring_receive :: nat
  ring_last :: nat
  n_responses_buffered :: int
  n_requests_inflight :: int
  n_unused :: int
  prf_hash :: "BufferTag \<rightharpoonup> nat"
  prf_buffer :: "nat \<Rightarrow> PrefetchRequest"
  readahead_buffer_size :: nat
  flush_every_n_requests :: int
  prefetch_lsn :: XLogRecPtr
  prefetch_duplicates :: nat
  prefetch_hits :: nat
  prefetch_expired :: nat
  prefetch_misses :: nat
  ps_send :: "bool list"
  ps_flush :: "bool list"
  ps_receive :: "NeonMessage option list"
  ps_sent :: "NeonMessage list"

definition zero_tag :: BufferTag where
  "zero_tag = \<lparr>rnode = \<lparr>spcNode = 0, dbNode = 0, relNode = 0\<rparr>, forkNum = MAIN_FORKNUM, blockNum = 0\<rparr>"

definition unused_slot :: PrefetchRequest where
  "unused_slot =
     \<lparr>buftag = zero_tag, effective_request_lsn = 0, response = None,
      status = PRFS_UNUSED, my_ring_index = 0\<rparr>"

definition GetPrfPos :: "pipeline \<Rightarrow> nat \<Rightarrow> nat" where
  "GetPrfPos p ring_index = ring_index mod readahead_buffer_size p"

definition GetPrfSlot :: "pipeline \<Rightarrow> nat \<Rightarrow> PrefetchRequest" where
  "GetPrfSlot p ring_index = prf_buffer p (GetPrfPos p ring_index)"

definition set_slot :: "nat \<Rightarrow> PrefetchRequest \<Rightarrow> pipeline \<Rightarrow> pipeline" where
  "set_slot pos slot p = p\<lparr>prf_buffer := (prf_buffer p)(pos := slot)\<rparr>"

text \<open>C's \<open>int / 8\<close> truncates towards zero; a value converted to \<open>uint64\<close> is taken modulo \<open>2^64\<close>.\<close>

definition c_div8 :: "int \<Rightarrow> int" where
  "c_div8 x = (if x < 0 then - ((- x) div 8) else x div 8)"

definition to_uint64 :: "int \<Rightarrow> int" where
  "to_uint64 x = x mod 2 ^ 64"

definition ReceiveBufferNeedsCompaction :: "pipeline \<Rightarrow> bool" where
  "ReceiveBufferNeedsCompaction p =
     (to_uint64 (c_div8 (n_responses_buffered p))
        < to_uint64 (int (ring_receive p) - int (ring_last p) - n_responses_buffered p))"

text \<open>
  Modelled from the spec: the hash table (\<open>prfh_*\<close>, generated from lib/simplehash.h) is not
  among the sources.  The spec's words are "associative map from BlockId to slot
  reference".  Keys are compared by buffer tag: delete removes the entry of the slot's
  tag; insert enters the slot under its tag unless the tag has an entry already.
\<close>

definition prfh_lookup :: "pipeline \<Rightarrow> BufferTag \<Rightarrow> nat option" where
  "prfh_lookup p tag = prf_hash p tag"

definition prfh_delete :: "nat \<Rightarrow> pipeline \<Rightarrow> pipeline" where
  "prfh_delete pos p = p\<lparr>prf_hash := (prf_hash p)(buftag (prf_buffer p pos) := None)\<rparr>"

definition prfh_insert :: "nat \<Rightarrow> pipeline \<Rightarrow> pipeline" where
  "prfh_insert pos p =
     (let tag = buftag (prf_buffer p pos) in
      if prf_hash p tag = None then p\<lparr>prf_hash := (prf_hash p)(tag \<mapsto> pos)\<rparr> else p)"

function prefetch_cleanup_trailing_unused :: "pipeline \<Rightarrow> pipeline" where
  "prefetch_cleanup_trailing_unused p =
     (if ring_last p < ring_receive p \<and> status (GetPrfSlot p (ring_last p)) = PRFS_UNUSED
      then prefetch_cleanup_trailing_unused (p\<lparr>ring_last := ring_last p + 1\<rparr>)
      else p)"
  by pat_completeness auto
termination
  by (relation "measure (\<lambda>p. ring_receive p - ring_last p)") auto

declare prefetch_cleanup_trailing_unused.simps [simp del]

text \<open>
  \<open>compact_prefetch_buffers\<close>: the first loop looks for the highest unused slot below
  \<open>ring_receive\<close>; the second moves every used slot below it up into the gap.
\<close>

function compact_find :: "pipeline \<Rightarrow> nat \<Rightarrow> nat \<Rightarrow> nat \<times> nat" where
  "compact_find p search_ring_index empty_ring_index =
     (if search_ring_index > ring_last p
      then (if status (GetPrfSlot p (search_ring_index - 1)) = PRFS_UNUSED
            then (search_ring_index - 1, search_ring_index - 1)
            else compact_find p (search_ring_index - 1) empty_ring_index)
      else (search_ring_index, empty_ring_index))"
  by pat_completeness auto
termination
  by (relation "measure (\<lambda>(p, s, e). s)") auto

declare compact_find.simps [simp del]

definition move_slot :: "nat \<Rightarrow> nat \<Rightarrow> pipeline \<Rightarrow> pipeline" where
  "move_slot search_ring_index empty_ring_index p =
     (let src = GetPrfPos p search_ring_index;
          tgt = GetPrfPos p empty_ring_index;
          source_slot = prf_buffer p src;
          p1 = set_slot tgt
                 ((prf_buffer p tgt)
                    \<lparr>buftag := buftag source_slot,
                     status := status source_slot,
                     response := response source_slot,
                     effective_request_lsn := effective_request_lsn source_slot,
                     my_ring_index := empty_ring_index\<rparr>) p;
          p2 = prfh_insert tgt (prfh_delete src p1)
      in set_slot src unused_slot p2)"

function compact_move :: "pipeline \<Rightarrow> nat \<Rightarrow> nat \<Rightarrow> nat \<Rightarrow> pipeline \<times> nat" where
  "compact_move p search_ring_index empty_ring_index n_moved =
     (if search_ring_index > ring_last p
      then (if status (GetPrfSlot p (search_ring_index - 1)) = PRFS_UNUSED
            then compact_move p (search_ring_index - 1) empty_ring_index n_moved
            else compact_move (move_slot (search_ring_index - 1) empty_ring_index p)
                   (search_ring_index - 1) (empty_ring_index - 1) (n_moved + 1))
      else (p, n_moved))"
  by pat_completeness auto
termination
  by (relation "measure (\<lambda>(p, s, e, n). s)") auto

declare compact_move.simps [simp del]

definition compact_prefetch_buffers :: "pipeline \<Rightarrow> bool \<times> pipeline" where
  "compact_prefetch_buffers p =
     (if ring_receive p = ring_last p then (False, p)
      else (let (search_ring_index, empty_ring_index) = compact_find p (ring_receive p) (ring_last p);
                (p1, n_moved) = compact_move p search_ring_index empty_ring_index 0
            in if n_moved > 0 then (True, prefetch_cleanup_trailing_unused p1) else (False, p1)))"

definition prefetch_set_unused :: "nat \<Rightarrow> pipeline \<Rightarrow> pipeline" where
  "prefetch_set_unused ring_index p =
     (let pos = GetPrfPos p ring_index; slot = prf_buffer p pos in
      if ring_index < ring_last p then p
      else if status slot = PRFS_UNUSED then p
      else (let p1 = (if status slot = PRFS_RECEIVED
                      then (set_slot pos (slot\<lparr>response := None\<rparr>) p)
                              \<lparr>n_responses_buffered := n_responses_buffered p - 1,
                               n_unused := n_unused p + 1\<rparr>
                      else p);
                p2 = set_slot pos unused_slot (prfh_delete pos p1)
            in if ring_last p2 = ring_index then prefetch_cleanup_trailing_unused p2
               else if ReceiveBufferNeedsCompaction p2 then snd (compact_prefetch_buffers p2)
               else p2))"

subsection \<open>The connection\<close>

definition ps_do_flush :: "pipeline \<Rightarrow> bool \<times> pipeline" where
  "ps_do_flush p = (case ps_flush p of [] \<Rightarrow> (False, p) | ok # rest \<Rightarrow> (ok, p\<lparr>ps_flush := rest\<rparr>))"

definition ps_do_send :: "NeonMessage \<Rightarrow> pipeline \<Rightarrow> bool \<times> pipeline" where
  "ps_do_send req p =
     (case ps_send p of
        [] \<Rightarrow> (False, p)
      | ok # rest \<Rightarrow> (ok, p\<lparr>ps_send := rest, ps_sent := (if ok then ps_sent p @ [req] else ps_sent p)\<rparr>))"

definition ps_do_receive :: "pipeline \<Rightarrow> NeonMessage option \<times> pipeline" where
  "ps_do_receive p =
     (case ps_receive p of [] \<Rightarrow> (None, p) | r # rest \<Rightarrow> (r, p\<lparr>ps_receive := rest\<rparr>))"

subsection \<open>Receiving\<close>

definition prefetch_read :: "nat \<Rightarrow> pipeline \<Rightarrow> bool \<times> pipeline" where
  "prefetch_read pos p =
     (case ps_do_receive p of
        (None, p1) \<Rightarrow> (False, p1)
      | (Some resp, p1) \<Rightarrow>
          (True,
           set_slot pos ((prf_buffer p1 pos)\<lparr>status := PRFS_RECEIVED, response := Some resp\<rparr>)
             (p1\<lparr>n_responses_buffered := n_responses_buffered p1 + 1,
                 n_requests_inflight := n_requests_inflight p1 - 1,
                 ring_receive := ring_receive p1 + 1\<rparr>)))"

lemma prefetch_read_ring_receive:
  "prefetch_read pos p = (True, p') \<Longrightarrow> ring_receive p' = ring_receive p + 1"
  by (auto simp: prefetch_read_def ps_do_receive_def set_slot_def split: list.splits option.splits)

function wait_receive :: "nat \<Rightarrow> pipeline \<Rightarrow> bool \<times> pipeline" where
  "wait_receive ring_index p =
     (if ring_receive p \<le> ring_index
      then (case prefetch_read (GetPrfPos p (ring_receive p)) p of
              (False, p1) \<Rightarrow> (False, p1)
            | (True, p1) \<Rightarrow> wait_receive ring_index p1)
      else (True, p))"
  by pat_completeness auto
termination
  by (relation "measure (\<lambda>(ring_index, p). ring_index + 1 - ring_receive p)")
     (auto dest!: prefetch_read_ring_receive[OF sym])

declare wait_receive.simps [simp del]

definition prefetch_wait_for :: "nat \<Rightarrow> pipeline \<Rightarrow> bool \<times> pipeline" where
  "prefetch_wait_for ring_index p =
     (if ring_flush p \<le> ring_index \<and> ring_unused p > ring_flush p
      then (case ps_do_flush p of
              (False, p1) \<Rightarrow> (False, p1)
            | (True, p1) \<Rightarrow> wait_receive ring_index (p1\<lparr>ring_flush := ring_unused p1\<rparr>))
      else wait_receive ring_index p)"

definition consume_prefetch_responses :: "pipeline \<Rightarrow> pipeline" where
  "consume_prefetch_responses p =
     (if ring_receive p < ring_unused p then snd (prefetch_wait_for (ring_unused p - 1) p) else p)"

subsection \<open>What retiring a slot leaves alone\<close>

text \<open>
  Cleaning up, compacting and retiring touch the slots, the hash table, \<open>ring_last\<close>,
  \<open>n_responses_buffered\<close> and \<open>n_unused\<close>; \<open>ring_frame p q\<close> says that everything else
  is the same in \<open>p\<close> and \<open>q\<close>.
\<close>

definition ring_frame :: "pipeline \<Rightarrow> pipeline \<Rightarrow> bool" where
  "ring_frame p q =
     (ring_unused q = ring_unused p \<and> ring_flush q = ring_flush p
      \<and> ring_receive q = ring_receive p \<and> ring_last p \<le> ring_last q
      \<and> n_requests_inflight q = n_requests_inflight p
      \<and> readahead_buffer_size q = readahead_buffer_size p
      \<and> flush_every_n_requests q = flush_every_n_requests p
      \<and> prefetch_lsn q = prefetch_lsn p
      \<and> prefetch_duplicates q = prefetch_duplicates p \<and> prefetch_hits q = prefetch_hits p
      \<and> prefetch_expired q = prefetch_expired p \<and> prefetch_misses q = prefetch_misses p
      \<and> ps_send q = ps_send p \<and> ps_flush q = ps_flush p
      \<and> ps_receive q = ps_receive p \<and> ps_sent q = ps_sent p)"

lemma ring_frame_refl: "ring_frame p p"
  by (simp add: ring_frame_def)

lemma ring_frame_trans: "ring_frame p q \<Longrightarrow> ring_frame q r \<Longrightarrow> ring_frame p r"
  by (simp add: ring_frame_def)

lemma cleanup_shape:
  "\<exists>k. ring_last p \<le> k \<and> k \<le> max (ring_last p) (ring_receive p)
       \<and> prefetch_cleanup_trailing_unused p = p\<lparr>ring_last := k\<rparr>"
proof (induction p rule: prefetch_cleanup_trailing_unused.induct)
  case (1 p)
  show ?case
  proof (cases "ring_last p < ring_receive p \<and> status (GetPrfSlot p (ring_last p)) = PRFS_UNUSED")
    case True
    from 1[OF True] obtain k where "ring_last p + 1 \<le> k" "k \<le> max (ring_last p + 1) (ring_receive p)"
      "prefetch_cleanup_trailing_unused (p\<lparr>ring_last := ring_last p + 1\<rparr>) = p\<lparr>ring_last := k\<rparr>"
      by auto
    with True show ?thesis
      by (subst prefetch_cleanup_trailing_unused.simps) (auto intro!: exI[of _ k])
  next
    case False
    then show ?thesis
      by (subst prefetch_cleanup_trailing_unused.simps) (auto intro!: exI[of _ "ring_last p"])
  qed
qed

lemma cleanup_frame: "ring_frame p (prefetch_cleanup_trailing_unused p)"
  using cleanup_shape[of p] by (auto simp: ring_frame_def)

lemma move_slot_frame: "ring_frame p (move_slot s e p)"
  by (simp add: ring_frame_def move_slot_def Let_def set_slot_def prfh_insert_def prfh_delete_def)

lemma move_slot_ring_last: "ring_last (move_slot s e p) = ring_last p"
  by (simp add: move_slot_def Let_def set_slot_def prfh_insert_def prfh_delete_def)

lemma compact_move_frame:
  "ring_frame p (fst (compact_move p s e n)) \<and> ring_last (fst (compact_move p s e n)) = ring_last p"
proof (induction p s e n rule: compact_move.induct)
  case (1 p s e n)
  show ?case
  proof (cases "s > ring_last p")
    case False
    then show ?thesis by (subst (1 2) compact_move.simps) (simp add: ring_frame_refl)
  next
    case True
    show ?thesis
    proof (cases "status (GetPrfSlot p (s - 1)) = PRFS_UNUSED")
      case u: True
      with True 1(1) show ?thesis by (subst (1 2) compact_move.simps) simp
    next
      case u: False
      from 1(2)[OF True u] move_slot_frame[of p "s - 1" e] move_slot_ring_last[of "s - 1" e p]
      have "ring_frame p (fst (compact_move (move_slot (s - 1) e p) (s - 1) (e - 1) (n + 1)))
          \<and> ring_last (fst (compact_move (move_slot (s - 1) e p) (s - 1) (e - 1) (n + 1))) = ring_last p"
        by (auto intro: ring_frame_trans)
      with True u show ?thesis by (subst (1 2) compact_move.simps) simp
    qed
  qed
qed

lemma compact_frame: "ring_frame p (snd (compact_prefetch_buffers p))"
proof -
  obtain s e where se: "compact_find p (ring_receive p) (ring_last p) = (s, e)"
    by (cases "compact_find p (ring_receive p) (ring_last p)") auto
  obtain q n where qn: "compact_move p s e 0 = (q, n)"
    by (cases "compact_move p s e 0") auto
  from compact_move_frame[of p s e 0] qn have f: "ring_frame p q" by simp
  show ?thesis
    using se qn f ring_frame_trans[OF f cleanup_frame[of q]]
    by (simp add: compact_prefetch_buffers_def ring_frame_refl)
qed

lemma prefetch_set_unused_frame: "ring_frame p (prefetch_set_unused ring_index p)"
proof -
  define pos where "pos = GetPrfPos p ring_index"
  define p1 where "p1 = (if status (prf_buffer p pos) = PRFS_RECEIVED
                      then (set_slot pos ((prf_buffer p pos)\<lparr>response := None\<rparr>) p)
                              \<lparr>n_responses_buffered := n_responses_buffered p - 1,
                               n_unused := n_unused p + 1\<rparr>
                      else p)"
  define p2 where "p2 = set_slot pos unused_slot (prfh_delete pos p1)"
  have f2: "ring_frame p p2"
    by (simp add: p2_def p1_def ring_frame_def set_slot_def prfh_delete_def)
  have "ring_frame p (prefetch_cleanup_trailing_unused p2)"
    by (rule ring_frame_trans[OF f2 cleanup_frame])
  moreover have "ring_frame p (snd (compact_prefetch_buffers p2))"
    by (rule ring_frame_trans[OF f2 compact_frame])
  ultimately show ?thesis
    using f2 by (simp add: prefetch_set_unused_def Let_def ring_frame_refl
        pos_def[symmetric] p1_def[symmetric] p2_def[symmetric])
qed

subsection \<open>Disconnect\<close>

definition disconnect_step :: "pipeline \<Rightarrow> pipeline" where
  "disconnect_step p =
     (let ring_index = ring_receive p;
          pos = GetPrfPos p ring_index;
          p1 = (set_slot pos ((prf_buffer p pos)\<lparr>status := PRFS_TAG_REMAINS\<rparr>) p)
                 \<lparr>n_requests_inflight := n_requests_inflight p - 1,
                  ring_receive := ring_receive p + 1\<rparr>
      in prefetch_set_unused ring_index p1)"

lemma disconnect_step_counters:
  "ring_unused (disconnect_step p) = ring_unused p
   \<and> ring_receive (disconnect_step p) = ring_receive p + 1
   \<and> ring_flush (disconnect_step p) = ring_flush p
   \<and> n_requests_inflight (disconnect_step p) = n_requests_inflight p - 1
   \<and> readahead_buffer_size (disconnect_step p) = readahead_buffer_size p"
proof -
  define p1 where "p1 = (set_slot (GetPrfPos p (ring_receive p))
        ((prf_buffer p (GetPrfPos p (ring_receive p)))\<lparr>status := PRFS_TAG_REMAINS\<rparr>) p)
                 \<lparr>n_requests_inflight := n_requests_inflight p - 1,
                  ring_receive := ring_receive p + 1\<rparr>"
  have "disconnect_step p = prefetch_set_unused (ring_receive p) p1"
    by (simp add: disconnect_step_def Let_def p1_def)
  with prefetch_set_unused_frame[of p1 "ring_receive p"] show ?thesis
    by (simp add: ring_frame_def p1_def set_slot_def)
qed

function disconnect_loop :: "pipeline \<Rightarrow> pipeline" where
  "disconnect_loop p =
     (if ring_receive p < ring_unused p then disconnect_loop (disconnect_step p) else p)"
  by pat_completeness auto
termination
  by (relation "measure (\<lambda>p. ring_unused p - ring_receive p)")
     (auto simp: disconnect_step_counters)

declare disconnect_loop.simps [simp del]

definition prefetch_on_ps_disconnect :: "pipeline \<Rightarrow> pipeline" where
  "prefetch_on_ps_disconnect p = disconnect_loop (p\<lparr>ring_flush := ring_unused p\<rparr>)"

section \<open>Request LSN\<close>

definition nm_adjust_lsn :: "world \<Rightarrow> XLogRecPtr \<Rightarrow> XLogRecPtr" where
  "nm_adjust_lsn w lsn =
     (if lsn AND (XLOG_BLCKSZ w - 1) = SizeOfXLogShortPHD w then lsn - SizeOfXLogShortPHD w
      else if lsn AND (wal_segment_size w - 1) = SizeOfXLogLongPHD w then lsn - SizeOfXLogLongPHD w
      else lsn)"

text \<open>\<open>neon_get_request_lsn\<close> gives \<open>*latest\<close>, the LSN, and the world (it may flush WAL).\<close>

definition neon_get_request_lsn ::
  "RelFileNode \<Rightarrow> ForkNumber \<Rightarrow> BlockNumber \<Rightarrow> world \<Rightarrow> bool \<times> XLogRecPtr \<times> world" where
  "neon_get_request_lsn rn forknum blkno w =
     (if RecoveryInProgress w
      then (False, nm_adjust_lsn w (GetLastWrittenLSN w rn forknum blkno), w)
      else if am_walsender w then (True, InvalidXLogRecPtr, w)
      else (let lsn = nm_adjust_lsn w (GetLastWrittenLSN w rn forknum blkno)
            in (True, lsn, if lsn > GetFlushRecPtr w then XLogFlush lsn w else w)))"

section \<open>Registering and issuing a prefetch\<close>

text \<open>
  \<open>while (!page_server->send(request));\<close> spins until a send is accepted: with the answers
  scripted, it ends after the first \<open>True\<close>, and never ends when there is none.
\<close>

fun first_accepted :: "bool list \<Rightarrow> bool list option" where
  "first_accepted [] = None"
| "first_accepted (ok # rest) = (if ok then Some rest else first_accepted rest)"

definition send_until_accepted :: "NeonMessage \<Rightarrow> pipeline \<Rightarrow> pipeline option" where
  "send_until_accepted req p =
     (case first_accepted (ps_send p) of
        None \<Rightarrow> None
      | Some rest \<Rightarrow> Some (p\<lparr>ps_send := rest, ps_sent := ps_sent p @ [req]\<rparr>))"

text \<open>
  \<open>force_latest\<close> and \<open>force_lsn\<close> are pointers that may be \<open>NULL\<close>: options.  The slot is
  given by its position.  The result is \<open>None\<close> when the send loop never ends.
\<close>

definition prefetch_do_request ::
  "nat \<Rightarrow> bool option \<Rightarrow> XLogRecPtr option \<Rightarrow> pipeline \<Rightarrow> world \<Rightarrow> (pipeline \<times> world) option" where
  "prefetch_do_request pos force_latest force_lsn p w =
     (let slot = prf_buffer p pos;
          tg = buftag slot;
          (latest, lsn, effective, new_prefetch_lsn, w1) =
            (case (force_lsn, force_latest) of
               (Some flsn, Some fl) \<Rightarrow> (fl, flsn, flsn, prefetch_lsn p, w)
             | _ \<Rightarrow>
                 (let (lt, l, w') = neon_get_request_lsn (rnode tg) (forkNum tg) (blockNum tg) w;
                      pl = max (prefetch_lsn p) l
                  in (lt, l, pl, pl, w')));
          request = NeonGetPageRequest latest lsn (rnode tg) (forkNum tg) (blockNum tg);
          p1 = set_slot pos (slot\<lparr>effective_request_lsn := effective\<rparr>)
                 (p\<lparr>prefetch_lsn := new_prefetch_lsn\<rparr>)
      in case send_until_accepted request p1 of
           None \<Rightarrow> None
         | Some p2 \<Rightarrow>
             (let p3 = p2\<lparr>n_requests_inflight := n_requests_inflight p2 + 1,
                         n_unused := n_unused p2 - 1,
                         ring_unused := ring_unused p2 + 1\<rparr>;
                  p4 = set_slot pos ((prf_buffer p3 pos)\<lparr>status := PRFS_REQUESTED\<rparr>) p3
              in Some (prfh_insert pos p4, w1)))"

text \<open>
  \<open>prefetch_register_buffer\<close> in three parts.  The lookup: a slot found under the tag is
  kept (its ring index is the result) unless the forced LSN rules it out, or it is
  \<open>TAG_REMAINS\<close>; a slot that is not kept is retired.
\<close>

definition register_lookup ::
  "BufferTag \<Rightarrow> bool option \<Rightarrow> XLogRecPtr option \<Rightarrow> pipeline \<Rightarrow> nat option \<times> pipeline" where
  "register_lookup tag force_latest force_lsn p =
     (case prfh_lookup p tag of
        None \<Rightarrow> (None, p)
      | Some pos \<Rightarrow>
          (let slot = prf_buffer p pos;
               ring_index = my_ring_index slot;
               refused =
                 (case (force_latest, force_lsn) of
                    (Some fl, Some flsn) \<Rightarrow>
                      if fl then flsn > effective_request_lsn slot
                      else flsn \<noteq> effective_request_lsn slot
                  | _ \<Rightarrow> False)
           in if refused
              then (None, prefetch_set_unused ring_index (snd (prefetch_wait_for ring_index p)))
              else if status slot = PRFS_TAG_REMAINS
              then (None, prefetch_set_unused ring_index p)
              else (Some ring_index, p\<lparr>prefetch_duplicates := prefetch_duplicates p + 1\<rparr>)))"

text \<open>
  Making room when \<open>ring_last + readahead_buffer_size - 1 == ring_unused\<close>.  The result is
  \<open>None\<close> at \<open>pg_unreachable()\<close> (the slot at \<open>ring_last\<close> is unused).
\<close>

definition register_make_room :: "pipeline \<Rightarrow> pipeline option" where
  "register_make_room p =
     (if int (ring_last p) + int (readahead_buffer_size p) - 1 = int (ring_unused p)
      then (let cleanup_index = ring_last p;
                pos = GetPrfPos p cleanup_index;
                (compacted, p1) =
                  (if ReceiveBufferNeedsCompaction p then compact_prefetch_buffers p else (False, p))
            in if compacted then Some p1
               else (case status (prf_buffer p1 pos) of
                       PRFS_REQUESTED \<Rightarrow>
                         Some (prefetch_set_unused cleanup_index
                                 (snd (prefetch_wait_for cleanup_index p1)))
                     | PRFS_RECEIVED \<Rightarrow> Some (prefetch_set_unused cleanup_index p1)
                     | PRFS_TAG_REMAINS \<Rightarrow> Some (prefetch_set_unused cleanup_index p1)
                     | PRFS_UNUSED \<Rightarrow> None))
      else Some p)"

definition register_new ::
  "BufferTag \<Rightarrow> bool option \<Rightarrow> XLogRecPtr option \<Rightarrow> pipeline \<Rightarrow> world
     \<Rightarrow> (nat, pipeline \<times> world) outcome" where
  "register_new tag force_latest force_lsn p w =
     (let ring_index = ring_unused p;
          pos = ring_index mod readahead_buffer_size p;
          p1 = set_slot pos ((prf_buffer p pos)\<lparr>buftag := tag, my_ring_index := ring_index\<rparr>) p
      in case prefetch_do_request pos force_latest force_lsn p1 w of
           None \<Rightarrow> Diverges
         | Some (p2, w1) \<Rightarrow>
             (let p3 = (if flush_every_n_requests p2 > 0
                           \<and> to_uint64 (int (ring_unused p2) - int (ring_flush p2))
                                \<ge> flush_every_n_requests p2
                        then (snd (ps_do_flush p2))\<lparr>ring_flush := ring_unused p2\<rparr>
                        else p2)
              in Returns ring_index (p3, w1)))"

definition prefetch_register_buffer ::
  "BufferTag \<Rightarrow> bool option \<Rightarrow> XLogRecPtr option \<Rightarrow> pipeline \<Rightarrow> world
     \<Rightarrow> (nat, pipeline \<times> world) outcome" where
  "prefetch_register_buffer tag force_latest force_lsn p w =
     (case register_lookup tag force_latest force_lsn p of
        (Some ring_index, p1) \<Rightarrow> Returns ring_index (p1, w)
      | (None, p1) \<Rightarrow>
          (case register_make_room p1 of
             None \<Rightarrow> Raises not_reachable (p1, w)
           | Some p2 \<Rightarrow> register_new tag force_latest force_lsn p2 w))"

section \<open>Reading a page\<close>




section \<open>Resizing the ring\<close>

text \<open>
  The first loop of \<open>readahead_buffer_resize\<close>, counting \<open>end + 1\<close> down (so that
  \<open>end == UINT64_MAX\<close> is \<open>end_plus_1 = 0\<close>).  \<open>old\<close> is \<open>MyPState\<close>, \<open>new\<close> is
  \<open>newPState\<close>.  \<open>copy_slot\<close> is the body for a used slot, with \<open>nfree\<close> already
  decremented; \<open>count_copied\<close> is its \<open>switch\<close> and the \<open>n_unused -= 1\<close> after it.
\<close>

definition count_copied :: "PrefetchStatus \<Rightarrow> pipeline \<Rightarrow> pipeline" where
  "count_copied st new =
     (let new1 = (case st of
                    PRFS_UNUSED \<Rightarrow> new
                  | PRFS_REQUESTED \<Rightarrow>
                      new\<lparr>n_requests_inflight := n_requests_inflight new + 1,
                          ring_receive := ring_receive new - 1,
                          ring_last := ring_last new - 1\<rparr>
                  | PRFS_RECEIVED \<Rightarrow>
                      new\<lparr>n_responses_buffered := n_responses_buffered new + 1,
                          ring_last := ring_last new - 1\<rparr>
                  | PRFS_TAG_REMAINS \<Rightarrow> new\<lparr>ring_last := ring_last new - 1\<rparr>)
      in new1\<lparr>n_unused := n_unused new1 - 1\<rparr>)"

definition copy_slot :: "PrefetchRequest \<Rightarrow> nat \<Rightarrow> pipeline \<Rightarrow> pipeline" where
  "copy_slot slot nfree new =
     count_copied (status slot)
       (prfh_insert nfree (set_slot nfree (slot\<lparr>my_ring_index := nfree\<rparr>) new))"

function resize_copy :: "pipeline \<Rightarrow> nat \<Rightarrow> nat \<Rightarrow> pipeline \<Rightarrow> pipeline" where
  "resize_copy old end_plus_1 nfree new =
     (if end_plus_1 \<noteq> 0 \<and> end_plus_1 - 1 \<ge> ring_last old \<and> nfree \<noteq> 0
      then (if status (GetPrfSlot old (end_plus_1 - 1)) = PRFS_UNUSED
            then resize_copy old (end_plus_1 - 1) nfree new
            else resize_copy old (end_plus_1 - 1) (nfree - 1)
                   (copy_slot (GetPrfSlot old (end_plus_1 - 1)) (nfree - 1) new))
      else new)"
  by pat_completeness auto
termination
  by (relation "measure (\<lambda>(old, e, n, new). e)") auto

declare resize_copy.simps [simp del]

text \<open>
  \<open>readahead_buffer_resize(newsize)\<close> for an initialised backend.  The second loop retires
  the slots of the old \<open>PrefetchState\<close> that were not copied; the old state is then freed,
  so the loop leaves no trace here.  The hook is the assign hook of
  \<open>readahead_buffer_size\<close>: the variable takes the new value when the hook has returned.
\<close>

definition readahead_buffer_resize :: "nat \<Rightarrow> pipeline \<Rightarrow> pipeline" where
  "readahead_buffer_resize newsize p =
     (let p1 = (if n_requests_inflight p > int newsize
                then snd (prefetch_wait_for
                            (if newsize \<le> ring_unused p then ring_unused p - newsize
                             else ring_unused p + 2 ^ 64 - newsize) p)
                else p);
          new = p1\<lparr>ring_unused := newsize, ring_flush := newsize, ring_receive := newsize,
                   ring_last := newsize, n_responses_buffered := 0, n_requests_inflight := 0,
                   n_unused := int newsize, prf_hash := Map.empty,
                   prf_buffer := (\<lambda>pos. unused_slot)\<rparr>
      in (resize_copy p1 (ring_unused p1) newsize new)\<lparr>readahead_buffer_size := newsize\<rparr>)"

text \<open>\<open>neon_init\<close>: an empty ring of \<open>readahead_buffer_size\<close> slots.\<close>

definition neon_init :: "nat \<Rightarrow> int \<Rightarrow> bool list \<Rightarrow> bool list \<Rightarrow> NeonMessage option list \<Rightarrow> pipeline" where
  "neon_init nslots flush_after sends flushes receives =
     \<lparr>ring_unused = 0, ring_flush = 0, ring_receive = 0, ring_last = 0,
      n_responses_buffered = 0, n_requests_inflight = 0, n_unused = int nslots,
      prf_hash = Map.empty, prf_buffer = (\<lambda>pos. unused_slot),
      readahead_buffer_size = nslots, flush_every_n_requests = flush_after, prefetch_lsn = 0,
      prefetch_duplicates = 0, prefetch_hits = 0, prefetch_expired = 0, prefetch_misses = 0,
      ps_send = sends, ps_flush = flushes, ps_receive = receives, ps_sent = []\<rparr>"

section \<open>Synchronous requests\<close>

lemma wait_receive_ps_send: "ps_send (snd (wait_receive ring_index p)) = ps_send p"
proof (induction ring_index p rule: wait_receive.induct)
  case (1 ring_index p)
  show ?case
  proof (cases "ring_receive p \<le> ring_index")
    case False
    then show ?thesis by (subst wait_receive.simps) simp
  next
    case True
    obtain ok p1 where r: "prefetch_read (GetPrfPos p (ring_receive p)) p = (ok, p1)"
      by (cases "prefetch_read (GetPrfPos p (ring_receive p)) p") auto
    then have s: "ps_send p1 = ps_send p"
      by (auto simp: prefetch_read_def ps_do_receive_def set_slot_def
          split: list.splits option.splits)
    show ?thesis
    proof (cases ok)
      case True
      with 1[OF \<open>ring_receive p \<le> ring_index\<close> r[symmetric, unfolded True]] r s
        \<open>ring_receive p \<le> ring_index\<close>
      show ?thesis by (subst wait_receive.simps) simp
    next
      case False
      with r s \<open>ring_receive p \<le> ring_index\<close> show ?thesis
        by (subst wait_receive.simps) simp
    qed
  qed
qed

lemma prefetch_wait_for_ps_send: "ps_send (snd (prefetch_wait_for ring_index p)) = ps_send p"
  by (auto simp: prefetch_wait_for_def ps_do_flush_def wait_receive_ps_send
      split: list.splits prod.splits bool.splits)

lemma consume_ps_send: "ps_send (consume_prefetch_responses p) = ps_send p"
  by (simp add: consume_prefetch_responses_def prefetch_wait_for_ps_send)

text \<open>
  \<open>while (!page_server->send(req) || !page_server->flush());\<close>  The result is \<open>None\<close>
  when the loop never ends.
\<close>

function send_and_flush :: "NeonMessage \<Rightarrow> pipeline \<Rightarrow> pipeline option" where
  "send_and_flush req p =
     (case ps_send p of
        [] \<Rightarrow> None
      | ok # rest \<Rightarrow>
          (if \<not> ok then send_and_flush req (snd (ps_do_send req p))
           else (case ps_do_flush (snd (ps_do_send req p)) of
                   (True, p2) \<Rightarrow> Some p2
                 | (False, p2) \<Rightarrow> send_and_flush req p2)))"
  by pat_completeness auto
termination
  by (relation "measure (\<lambda>(req, p). length (ps_send p))")
     (auto simp: ps_do_send_def ps_do_flush_def split: list.splits)

declare send_and_flush.simps [simp del]

lemma send_and_flush_shorter:
  "send_and_flush req p = Some p1 \<Longrightarrow> length (ps_send p1) < length (ps_send p)"
proof (induction req p rule: send_and_flush.induct)
  case (1 req p)
  show ?case
  proof (cases "ps_send p")
    case Nil
    with 1(3) show ?thesis by (subst (asm) send_and_flush.simps) simp
  next
    case (Cons ok rest)
    have s1: "ps_send (snd (ps_do_send req p)) = rest"
      using Cons by (simp add: ps_do_send_def)
    show ?thesis
    proof (cases ok)
      case False
      with Cons 1(3) have "send_and_flush req (snd (ps_do_send req p)) = Some p1"
        by (subst (asm) send_and_flush.simps) simp
      with 1(1)[of ok rest] Cons False
      have "length (ps_send p1) < length (ps_send (snd (ps_do_send req p)))" by simp
      with s1 Cons show ?thesis by simp
    next
      case True
      obtain f p2 where fl: "ps_do_flush (snd (ps_do_send req p)) = (f, p2)"
        by (cases "ps_do_flush (snd (ps_do_send req p))") auto
      then have s2: "ps_send p2 = rest"
        using s1 by (auto simp: ps_do_flush_def split: list.splits)
      show ?thesis
      proof (cases f)
        case t: True
        with Cons True fl 1(3) have "p1 = p2" by (subst (asm) send_and_flush.simps) simp
        with s2 Cons show ?thesis by simp
      next
        case f: False
        with Cons True fl 1(3) have "send_and_flush req p2 = Some p1"
          by (subst (asm) send_and_flush.simps) simp
        with 1(2)[of ok rest f p2] Cons True fl f
        have "length (ps_send p1) < length (ps_send p2)" by simp
        with s2 Cons show ?thesis by simp
      qed
    qed
  qed
qed

text \<open>\<open>page_server_request\<close>: the response and the state, or \<open>None\<close> when it never returns.\<close>

function page_server_request :: "NeonMessage \<Rightarrow> pipeline \<Rightarrow> (NeonMessage \<times> pipeline) option" where
  "page_server_request req p =
     (case send_and_flush req p of
        None \<Rightarrow> None
      | Some p1 \<Rightarrow>
          (case ps_do_receive (consume_prefetch_responses (p1\<lparr>ring_flush := ring_unused p1\<rparr>)) of
             (Some resp, p3) \<Rightarrow> Some (resp, p3)
           | (None, p3) \<Rightarrow> page_server_request req p3))"
  by pat_completeness auto
termination
proof (relation "measure (\<lambda>(req, p). length (ps_send p))")
  show "wf (measure (\<lambda>(req, p). length (ps_send p)))" by simp
next
  fix req :: NeonMessage and p p1 p3 :: pipeline and x :: "NeonMessage option \<times> pipeline"
    and y :: "NeonMessage option"
  assume a: "send_and_flush req p = Some p1"
    and b: "(y, p3) = ps_do_receive (consume_prefetch_responses (p1\<lparr>ring_flush := ring_unused p1\<rparr>))"
  from a have "length (ps_send p1) < length (ps_send p)" by (rule send_and_flush_shorter)
  moreover have "ps_send (consume_prefetch_responses (p1\<lparr>ring_flush := ring_unused p1\<rparr>)) = ps_send p1"
    by (simp add: consume_ps_send)
  moreover from b have "ps_send p3 = ps_send (consume_prefetch_responses (p1\<lparr>ring_flush := ring_unused p1\<rparr>))"
    by (auto simp: ps_do_receive_def split: list.splits)
  ultimately show "((req, p3), (req, p)) \<in> measure (\<lambda>(req, p). length (ps_send p))" by simp
qed

declare page_server_request.simps [simp del]

section \<open>Relation size and extension\<close>

definition neon_nblocks ::
  "SMgrRelation \<Rightarrow> ForkNumber \<Rightarrow> pipeline \<Rightarrow> world \<Rightarrow> (BlockNumber, pipeline \<times> world) outcome" where
  "neon_nblocks reln forknum p w =
     (case smgr_relpersistence reln of
        RELPERSISTENCE_UNKNOWN \<Rightarrow> Raises unknown_persistence (p, w)
      | RELPERSISTENCE_TEMP \<Rightarrow> Returns (mdnblocks w (smgr_rnode reln) forknum) (p, w)
      | RELPERSISTENCE_UNLOGGED \<Rightarrow> Returns (mdnblocks w (smgr_rnode reln) forknum) (p, w)
      | RELPERSISTENCE_OTHER c \<Rightarrow> Raises (unknown_relpersistence c) (p, w)
      | RELPERSISTENCE_PERMANENT \<Rightarrow>
          (case get_cached_relsize (smgr_rnode reln) forknum w of
             Some n_blocks \<Rightarrow> Returns n_blocks (p, w)
           | None \<Rightarrow>
               (let (latest, request_lsn, w1) =
                      neon_get_request_lsn (smgr_rnode reln) forknum (REL_METADATA_PSEUDO_BLOCKNO w) w
                in case page_server_request
                          (NeonNblocksRequest latest request_lsn (smgr_rnode reln) forknum) p of
                     None \<Rightarrow> Diverges
                   | Some (NeonNblocksResponse n_blocks, p1) \<Rightarrow>
                       Returns n_blocks
                         (p1, update_cached_relsize (smgr_rnode reln) forknum n_blocks w1)
                   | Some (NeonErrorResponse msg, p1) \<Rightarrow> Raises page_server_returned_error (p1, w1)
                   | Some (other, p1) \<Rightarrow> Raises unexpected_response (p1, w1))))"

lemma word_less_succ:
  fixes n b :: "32 word"
  assumes "n < b"
  shows "unat (n + 1) = Suc (unat n)"
proof -
  from assms have "unat n < unat b" by (simp add: word_less_nat_alt)
  moreover have "unat b < 2 ^ 32" using unsigned_less[of b] by simp
  ultimately have "unat n + 1 < 2 ^ 32" by simp
  then show ?thesis by (simp add: unat_word_ariths)
qed

text \<open>\<open>while (n_blocks < blkno) neon_wallog_page(reln, forkNum, n_blocks++, buffer, true);\<close>\<close>

function wallog_gap ::
  "SMgrRelation \<Rightarrow> ForkNumber \<Rightarrow> BlockNumber \<Rightarrow> BlockNumber \<Rightarrow> page \<Rightarrow> world \<Rightarrow> (unit, world) outcome" where
  "wallog_gap reln forknum n_blocks blkno buffer w =
     (if n_blocks < blkno
      then (case neon_wallog_page reln forknum n_blocks buffer True w of
              Returns u w1 \<Rightarrow> wallog_gap reln forknum (n_blocks + 1) blkno buffer w1
            | Raises e w1 \<Rightarrow> Raises e w1
            | Diverges \<Rightarrow> Diverges)
      else Returns () w)"
  by pat_completeness auto
termination
proof (relation "measure (\<lambda>(reln, forknum, n_blocks, blkno, buffer, w). unat blkno - unat n_blocks)")
  show "wf (measure (\<lambda>(reln, forknum, n_blocks, blkno, buffer, w). unat blkno - unat n_blocks))"
    by simp
next
  fix reln :: SMgrRelation and forknum :: ForkNumber and n_blocks blkno :: BlockNumber
    and buffer :: page and w w1 :: world and u :: unit
  assume lt: "n_blocks < blkno"
  show "((reln, forknum, n_blocks + 1, blkno, buffer, w1), (reln, forknum, n_blocks, blkno, buffer, w))
      \<in> measure (\<lambda>(reln, forknum, n_blocks, blkno, buffer, w). unat blkno - unat n_blocks)"
    using word_less_succ[OF lt] lt by (simp add: word_less_nat_alt)
qed

declare wallog_gap.simps [simp del]

definition neon_extend ::
  "SMgrRelation \<Rightarrow> ForkNumber \<Rightarrow> BlockNumber \<Rightarrow> page \<Rightarrow> pipeline \<Rightarrow> world
     \<Rightarrow> (unit, pipeline \<times> world) outcome" where
  "neon_extend reln forknum blkno buffer p w =
     (case smgr_relpersistence reln of
        RELPERSISTENCE_UNKNOWN \<Rightarrow> Raises unknown_persistence (p, w)
      | RELPERSISTENCE_TEMP \<Rightarrow>
          Returns () (p, do_call (Call_mdextend (smgr_rnode reln) forknum blkno buffer) w)
      | RELPERSISTENCE_UNLOGGED \<Rightarrow>
          Returns () (p, do_call (Call_mdextend (smgr_rnode reln) forknum blkno buffer) w)
      | RELPERSISTENCE_OTHER c \<Rightarrow> Raises (unknown_relpersistence c) (p, w)
      | RELPERSISTENCE_PERMANENT \<Rightarrow>
          if max_cluster_size w > 0 \<and> \<not> IsAutoVacuumWorkerProcess w
             \<and> int (GetZenithCurrentClusterSize w) \<ge> max_cluster_size w * 1024 * 1024
          then Raises cluster_size_limit_exceeded (p, w)
          else (case neon_nblocks reln forknum p w of
                  Raises e s \<Rightarrow> Raises e s
                | Diverges \<Rightarrow> Diverges
                | Returns n_blocks (p1, w1) \<Rightarrow>
                    (case wallog_gap reln forknum n_blocks blkno buffer w1 of
                       Raises e w2 \<Rightarrow> Raises e (p1, w2)
                     | Diverges \<Rightarrow> Diverges
                     | Returns u w2 \<Rightarrow>
                         (case neon_wallog_page reln forknum blkno buffer False w2 of
                            Raises e w3 \<Rightarrow> Raises e (p1, w3)
                          | Diverges \<Rightarrow> Diverges
                          | Returns u w3 \<Rightarrow>
                              (let w4 = set_cached_relsize (smgr_rnode reln) forknum (blkno + 1) w3;
                                   lsn = PageGetLSN w4 buffer;
                                   w5 = do_call (Call_lfc_write (smgr_rnode reln) forknum blkno buffer) w4
                               in if lsn = InvalidXLogRecPtr
                                  then (let lsn1 = GetXLogInsertRecPtr w5;
                                            w6 = do_call (Call_SetLastWrittenLSNForBlock lsn1
                                                            (smgr_rnode reln) forknum blkno) w5
                                        in Returns ()
                                             (p1, do_call (Call_SetLastWrittenLSNForRelation lsn1
                                                             (smgr_rnode reln) forknum) w6))
                                  else Returns ()
                                         (p1, do_call (Call_SetLastWrittenLSNForRelation lsn
                                                         (smgr_rnode reln) forknum) w5))))))"

section \<open>Redo read-buffer filter\<close>

text \<open>
  \<open>old_redo_read_buffer_filter\<close> is the filter that was installed before this one, if any.
  A block id with no block reference in the record ends in the \<open>PANIC\<close> of the
  look-up.  \<open>LWLockAcquire\<close> and \<open>LWLockRelease\<close> are recorded with the tag whose
  partition they lock.

  The response of the size request is cast to \<open>NeonNblocksResponse *\<close> whatever its tag
  (the \<open>Assert\<close> on the tag is compiled out), and \<open>n_blocks\<close> is read through the cast.
  For a response of another kind the value read is whatever its bytes hold at that
  offset: the field \<open>cast_n_blocks\<close> of \<open>world\<close>.
\<close>

definition nbresponse_n_blocks :: "world \<Rightarrow> NeonMessage \<Rightarrow> BlockNumber" where
  "nbresponse_n_blocks w resp =
     (case resp of NeonNblocksResponse n_blocks \<Rightarrow> n_blocks | _ \<Rightarrow> cast_n_blocks w resp)"

definition neon_redo_read_buffer_filter ::
  "XLogReaderState \<Rightarrow> byte \<Rightarrow> pipeline \<Rightarrow> world \<Rightarrow> (bool, pipeline \<times> world) outcome" where
  "neon_redo_read_buffer_filter record block_id p w =
     (let end_recptr = EndRecPtr record in
      if (case old_redo_read_buffer_filter w of None \<Rightarrow> False | Some f \<Rightarrow> f record block_id)
      then Returns True (p, w)
      else (case block_tags record block_id of
              None \<Rightarrow> Raises failed_to_locate_backup_block (p, w)
            | Some (rn, forknum, blkno) \<Rightarrow>
                if \<not> OidIsValid (dbNode rn) then Returns False (p, w)
                else (let tag = \<lparr>rnode = rn, forkNum = forknum, blockNum = blkno\<rparr>;
                          w1 = do_call (Call_LWLockAcquire tag) w;
                          no_redo_needed = (BufTableLookup w1 tag < 0);
                          w2 = do_call (Call_SetLastWrittenLSNForBlock end_recptr rn forknum blkno) w1;
                          w3 = (if no_redo_needed then do_call (Call_lfc_evict rn forknum blkno) w2
                                else w2);
                          w4 = do_call (Call_LWLockRelease tag) w3
                     in case get_cached_relsize rn forknum w4 of
                          Some relsize \<Rightarrow>
                            if relsize < blkno + 1
                            then Returns no_redo_needed
                                   (p, do_call (Call_SetLastWrittenLSNForRelation end_recptr rn forknum)
                                         (update_cached_relsize rn forknum (blkno + 1) w4))
                            else Returns no_redo_needed (p, w4)
                        | None \<Rightarrow>
                            (case page_server_request
                                    (NeonNblocksRequest False end_recptr rn forknum) p of
                               None \<Rightarrow> Diverges
                             | Some (resp, p1) \<Rightarrow>
                                 Returns no_redo_needed
                                   (p1, do_call (Call_SetLastWrittenLSNForRelation end_recptr rn forknum)
                                          (set_cached_relsize rn forknum
                                             (nbresponse_n_blocks w4 resp) w4))))))"

text \<open>
  \<open>old_filter_skips\<close>: an earlier filter is installed and asks to skip.  \<open>locked_calls\<close>:
  what the filter calls from taking the partition lock to releasing it.
\<close>

definition old_filter_skips :: "world \<Rightarrow> XLogReaderState \<Rightarrow> byte \<Rightarrow> bool" where
  "old_filter_skips w record block_id =
     (case old_redo_read_buffer_filter w of None \<Rightarrow> False | Some f \<Rightarrow> f record block_id)"

definition locked_calls ::
  "XLogRecPtr \<Rightarrow> RelFileNode \<Rightarrow> ForkNumber \<Rightarrow> BlockNumber \<Rightarrow> bool \<Rightarrow> call list" where
  "locked_calls lsn rn forknum blkno absent =
     [Call_LWLockAcquire \<lparr>rnode = rn, forkNum = forknum, blockNum = blkno\<rparr>,
      Call_SetLastWrittenLSNForBlock lsn rn forknum blkno]
     @ (if absent then [Call_lfc_evict rn forknum blkno] else [])
     @ [Call_LWLockRelease \<lparr>rnode = rn, forkNum = forknum, blockNum = blkno\<rparr>]"

text \<open>\<open>relation_calls\<close>: what the filter calls after it has released the lock.\<close>

definition relation_calls ::
  "world \<Rightarrow> XLogRecPtr \<Rightarrow> RelFileNode \<Rightarrow> ForkNumber \<Rightarrow> BlockNumber \<Rightarrow> call list" where
  "relation_calls w lsn rn forknum blkno =
     (case get_cached_relsize rn forknum w of
        Some relsize \<Rightarrow>
          if relsize < blkno + 1 then [Call_SetLastWrittenLSNForRelation lsn rn forknum] else []
      | None \<Rightarrow> [Call_SetLastWrittenLSNForRelation lsn rn forknum])"

text \<open>The calls made since the world was \<open>w\<close>.\<close>

definition calls_since :: "world \<Rightarrow> world \<Rightarrow> call list" where
  "calls_since w w' = drop (length (calls w)) (calls w')"

text \<open>
  What \<open>neon_extend\<close> is expected to have called.  \<open>forced_log_calls\<close>: a block logged
  by force (\<open>log_newpage_copy\<close>, \<open>XLogFlush\<close> up to the record, the block's last-written
  LSN set to the record).  \<open>wallog_calls\<close>: what \<open>neon_wallog_page\<close> calls when it
  returns.  \<open>gap_blocks\<close>: the blocks from the previous size up to, not including, the
  extended block.  \<open>publish_calls\<close>: the closing publication of \<open>neon_extend\<close>.
  \<open>environment\<close> forgets what the modelled functions write (the flush pointer, the
  relation-size cache and the calls); two worlds with the same environment answer every
  other question alike.
\<close>

definition forced_log_calls ::
  "world \<Rightarrow> RelFileNode \<Rightarrow> ForkNumber \<Rightarrow> BlockNumber \<Rightarrow> page \<Rightarrow> call list" where
  "forced_log_calls w rn fk blk pg =
     [Call_log_newpage rn fk blk pg,
      Call_XLogFlush (log_newpage w rn fk blk pg),
      Call_SetLastWrittenLSNForBlock (log_newpage w rn fk blk pg) rn fk blk]"

definition wallog_calls ::
  "world \<Rightarrow> RelFileNode \<Rightarrow> ForkNumber \<Rightarrow> BlockNumber \<Rightarrow> page \<Rightarrow> bool \<Rightarrow> call list" where
  "wallog_calls w rn fk blk pg force =
     (if ShutdownRequestPending w then []
      else if \<not> XLogInsertAllowed w then []
      else if (force \<or> fk = FSM_FORKNUM \<or> fk = VISIBILITYMAP_FORKNUM) \<and> \<not> RecoveryInProgress w
      then forced_log_calls w rn fk blk pg
      else [Call_SetLastWrittenLSNForBlock (PageGetLSN w pg) rn fk blk])"

definition gap_blocks :: "BlockNumber \<Rightarrow> BlockNumber \<Rightarrow> BlockNumber list" where
  "gap_blocks n_blocks blkno = map of_nat [unat n_blocks ..< unat blkno]"

definition can_log :: "world \<Rightarrow> bool" where
  "can_log w = (\<not> ShutdownRequestPending w \<and> XLogInsertAllowed w \<and> \<not> RecoveryInProgress w)"

definition environment :: "world \<Rightarrow> world" where
  "environment w = w\<lparr>GetFlushRecPtr := 0, relsize_cache := Map.empty, calls := []\<rparr>"

definition same_environment :: "world \<Rightarrow> world \<Rightarrow> bool" where
  "same_environment w w' = (environment w' = environment w)"

definition publish_calls ::
  "world \<Rightarrow> RelFileNode \<Rightarrow> ForkNumber \<Rightarrow> BlockNumber \<Rightarrow> page \<Rightarrow> call list" where
  "publish_calls w rn fk blk pg =
     (if PageGetLSN w pg = InvalidXLogRecPtr
      then [Call_SetLastWrittenLSNForBlock (GetXLogInsertRecPtr w) rn fk blk,
            Call_SetLastWrittenLSNForRelation (GetXLogInsertRecPtr w) rn fk]
      else [Call_SetLastWrittenLSNForRelation (PageGetLSN w pg) rn fk])"

subsection \<open>Predicates on the ring\<close>


definition settled_status :: "PrefetchStatus \<Rightarrow> bool" where
  "settled_status st = (st = PRFS_UNUSED \<or> st = PRFS_RECEIVED)"

text \<open>Every slot from \<open>ring_last\<close> up to \<open>ring_receive\<close> is unused or holds a response.\<close>

definition received_window_settled :: "pipeline \<Rightarrow> bool" where
  "received_window_settled p =
     (\<forall>k. ring_last p \<le> k \<and> k < ring_receive p \<longrightarrow> settled_status (status (GetPrfSlot p k)))"

text \<open>
  \<open>hash_exact\<close>: the hash table holds exactly the used slots of the buffer, each under
  its tag (so no two used slots carry the same tag).  \<open>received_tags\<close>: the tags of the
  slots that hold a response.  \<open>ring_consistent\<close>: the counters are ordered and the
  window they span fits the buffer; the slots from \<open>ring_receive\<close> up to \<open>ring_unused\<close>
  are requested; no other slot of the buffer is requested or \<open>TAG_REMAINS\<close>; and the hash
  table is exact.
\<close>

definition hash_exact :: "pipeline \<Rightarrow> bool" where
  "hash_exact p =
     (\<forall>t pos. prf_hash p t = Some pos \<longleftrightarrow>
        (pos < readahead_buffer_size p \<and> status (prf_buffer p pos) \<noteq> PRFS_UNUSED
         \<and> buftag (prf_buffer p pos) = t))"

definition received_tags :: "pipeline \<Rightarrow> BufferTag set" where
  "received_tags p =
     {t. \<exists>pos. pos < readahead_buffer_size p \<and> status (prf_buffer p pos) = PRFS_RECEIVED
                \<and> buftag (prf_buffer p pos) = t}"

definition ring_consistent :: "pipeline \<Rightarrow> bool" where
  "ring_consistent p =
     (ring_last p \<le> ring_receive p \<and> ring_receive p \<le> ring_unused p
      \<and> ring_unused p \<le> ring_last p + readahead_buffer_size p
      \<and> (\<forall>k. ring_receive p \<le> k \<and> k < ring_unused p \<longrightarrow>
             status (GetPrfSlot p k) = PRFS_REQUESTED)
      \<and> (\<forall>pos. pos < readahead_buffer_size p \<and> \<not> settled_status (status (prf_buffer p pos)) \<longrightarrow>
             (\<exists>k. ring_receive p \<le> k \<and> k < ring_unused p \<and> pos = GetPrfPos p k))
      \<and> hash_exact p)"

text \<open>
  \<open>retire_compacts ring_index p\<close>: retiring \<open>ring_index\<close> reaches the last branch of
  \<open>prefetch_set_unused\<close> and compacts (the slot is live, it is not the one at \<open>ring_last\<close>,
  and with it gone \<open>ReceiveBufferNeedsCompaction\<close> holds).
\<close>

definition retire_compacts :: "nat \<Rightarrow> pipeline \<Rightarrow> bool" where
  "retire_compacts ring_index p =
     (ring_last p < ring_index \<and> status (GetPrfSlot p ring_index) \<noteq> PRFS_UNUSED
      \<and> ReceiveBufferNeedsCompaction
            (p\<lparr>n_responses_buffered :=
                 (if status (GetPrfSlot p ring_index) = PRFS_RECEIVED
                  then n_responses_buffered p - 1 else n_responses_buffered p)\<rparr>))"

text \<open>The ordering of the four ring counters and the bound on the window they span.\<close>

definition counter_invariant :: "pipeline \<Rightarrow> bool" where
  "counter_invariant p =
     (ring_last p \<le> ring_receive p \<and> ring_receive p \<le> ring_flush p
      \<and> ring_flush p \<le> ring_unused p
      \<and> ring_unused p - ring_last p \<le> readahead_buffer_size p)"

text \<open>No slot from \<open>ring_last\<close> up to \<open>ring_unused\<close> is unused.\<close>

definition window_live :: "pipeline \<Rightarrow> bool" where
  "window_live p =
     (\<forall>k. ring_last p \<le> k \<and> k < ring_unused p \<longrightarrow> status (GetPrfSlot p k) \<noteq> PRFS_UNUSED)"

text \<open>
  What the copying loop of \<open>readahead_buffer_resize\<close> maintains: \<open>ring_last\<close> follows
  \<open>nfree\<close>, the positions from \<open>nfree\<close> up hold used slots, and every tag in the new hash
  table is the tag of a slot of the old ring.
\<close>

definition copy_inv :: "pipeline \<Rightarrow> nat \<Rightarrow> nat \<Rightarrow> pipeline \<Rightarrow> bool" where
  "copy_inv old newsize nfree new =
     (ring_last new = nfree \<and> nfree \<le> ring_receive new \<and> ring_receive new \<le> newsize
      \<and> ring_flush new = newsize \<and> ring_unused new = newsize
      \<and> (\<forall>pos. nfree \<le> pos \<and> pos < newsize \<longrightarrow> status (prf_buffer new pos) \<noteq> PRFS_UNUSED)
      \<and> (\<forall>tag. prf_hash new tag \<noteq> None \<longrightarrow> (\<exists>pos. tag = buftag (prf_buffer old pos)))
      \<and> ps_send new = ps_send old \<and> flush_every_n_requests new = flush_every_n_requests old)"

section \<open>A sample configuration\<close>

text \<open>
  One concrete world, used where a property is exercised on explicit inputs: a primary
  (not in recovery) that may insert WAL, with 8 kB WAL pages and 16 MB segments.  Its
  pages are short byte lists whose first byte is read as the LSN.
\<close>

definition sample_world :: world where
  "sample_world =
     \<lparr>ShutdownRequestPending = False, XLogInsertAllowed = True, RecoveryInProgress = False,
      am_walsender = False, MyBackendType_is_startup = False, IsAutoVacuumWorkerProcess = False,
      max_cluster_size = 0, GetZenithCurrentClusterSize = 0,
      PageGetLSN = (\<lambda>pg. case pg of [] \<Rightarrow> 0 | b # _ \<Rightarrow> ucast b),
      PageIsNew = list_all (\<lambda>b. b = 0),
      PageInit_result = [0, 24],
      log_newpage = (\<lambda>rn fk blk pg. 4096 + ucast blk),
      GetXLogInsertRecPtr = 8000,
      GetFlushRecPtr = 8000,
      GetLastWrittenLSN = (\<lambda>rn fk blk. 4000),
      XLOG_BLCKSZ = 8192, SizeOfXLogShortPHD = 24,
      wal_segment_size = 16777216, SizeOfXLogLongPHD = 40,
      relsize_cache = Map.empty,
      BufTableLookup = (\<lambda>tag. - 1),
      mdnblocks = (\<lambda>rn fk. 0),
      REL_METADATA_PSEUDO_BLOCKNO = 4294967295,
      old_redo_read_buffer_filter = None,
      cast_n_blocks = (\<lambda>resp. 0),
      calls = []\<rparr>"

definition sample_rel :: SMgrRelation where
  "sample_rel =
     \<lparr>smgr_rnode = \<lparr>spcNode = 1663, dbNode = 12345, relNode = 16384\<rparr>,
      smgr_relpersistence = RELPERSISTENCE_PERMANENT\<rparr>"

definition sample_tag :: "BlockNumber \<Rightarrow> BufferTag" where
  "sample_tag blk = \<lparr>rnode = \<lparr>spcNode = 1663, dbNode = 12345, relNode = 16384\<rparr>,
                     forkNum = MAIN_FORKNUM, blockNum = blk\<rparr>"

definition received_slot :: "nat \<Rightarrow> PrefetchRequest" where
  "received_slot k =
     \<lparr>buftag = sample_tag (of_nat k), effective_request_lsn = 4000,
      response = Some (NeonGetPageResponse [of_nat k]), status = PRFS_RECEIVED,
      my_ring_index = k\<rparr>"

definition requested_slot :: "nat \<Rightarrow> PrefetchRequest" where
  "requested_slot k =
     \<lparr>buftag = sample_tag (of_nat k), effective_request_lsn = 4000,
      response = None, status = PRFS_REQUESTED, my_ring_index = k\<rparr>"

text \<open>A ring of four slots holding the responses to requests 0, 1 and 2.\<close>

definition sample_ring :: pipeline where
  "sample_ring =
     \<lparr>ring_unused = 3, ring_flush = 3, ring_receive = 3, ring_last = 0,
      n_responses_buffered = 3, n_requests_inflight = 0, n_unused = 1,
      prf_hash = [sample_tag 0 \<mapsto> 0, sample_tag 1 \<mapsto> 1, sample_tag 2 \<mapsto> 2],
      prf_buffer = (\<lambda>pos. if pos < 3 then received_slot pos else unused_slot),
      readahead_buffer_size = 4, flush_every_n_requests = 8, prefetch_lsn = 4000,
      prefetch_duplicates = 0, prefetch_hits = 0, prefetch_expired = 0, prefetch_misses = 0,
      ps_send = [], ps_flush = [], ps_receive = [], ps_sent = []\<rparr>"

text \<open>A ring of four slots with requests 0, 1 and 2 sent and not yet answered.\<close>

definition inflight_ring :: pipeline where
  "inflight_ring =
     \<lparr>ring_unused = 3, ring_flush = 0, ring_receive = 0, ring_last = 0,
      n_responses_buffered = 0, n_requests_inflight = 3, n_unused = 1,
      prf_hash = [sample_tag 0 \<mapsto> 0, sample_tag 1 \<mapsto> 1, sample_tag 2 \<mapsto> 2],
      prf_buffer = (\<lambda>pos. if pos < 3 then requested_slot pos else unused_slot),
      readahead_buffer_size = 4, flush_every_n_requests = 8, prefetch_lsn = 4000,
      prefetch_duplicates = 0, prefetch_hits = 0, prefetch_expired = 0, prefetch_misses = 0,
      ps_send = [], ps_flush = [], ps_receive = [], ps_sent = []\<rparr>"

text \<open>
  A ring of four slots holding the response to request 0, with requests 1 and 2 sent and
  not yet answered.
\<close>

definition half_received_ring :: pipeline where
  "half_received_ring =
     \<lparr>ring_unused = 3, ring_flush = 1, ring_receive = 1, ring_last = 0,
      n_responses_buffered = 1, n_requests_inflight = 2, n_unused = 1,
      prf_hash = [sample_tag 0 \<mapsto> 0, sample_tag 1 \<mapsto> 1, sample_tag 2 \<mapsto> 2],
      prf_buffer = (\<lambda>pos. if pos = 0 then received_slot 0
                           else if pos < 3 then requested_slot pos else unused_slot),
      readahead_buffer_size = 4, flush_every_n_requests = 8, prefetch_lsn = 4000,
      prefetch_duplicates = 0, prefetch_hits = 0, prefetch_expired = 0, prefetch_misses = 0,
      ps_send = [], ps_flush = [], ps_receive = [], ps_sent = []\<rparr>"

text \<open>
  A ring of 128 slots holding the responses to requests 0 to 19, with one send that the
  connection will accept.
\<close>

definition busy_ring :: pipeline where
  "busy_ring =
     \<lparr>ring_unused = 20, ring_flush = 20, ring_receive = 20, ring_last = 0,
      n_responses_buffered = 20, n_requests_inflight = 0, n_unused = 108,
      prf_hash = map_of (map (\<lambda>k. (sample_tag (of_nat k), k)) [0..<20]),
      prf_buffer = (\<lambda>pos. if pos < 20 then received_slot pos else unused_slot),
      readahead_buffer_size = 128, flush_every_n_requests = 8, prefetch_lsn = 4000,
      prefetch_duplicates = 0, prefetch_hits = 0, prefetch_expired = 0, prefetch_misses = 0,
      ps_send = [True], ps_flush = [], ps_receive = [], ps_sent = []\<rparr>"



text \<open>
  A WAL record ending at LSN 5000 whose block 0 is block 42 of the sample relation, and
  one whose block 0 is block 42 of a shared catalog (database id zero).  \<open>cached_world\<close>
  knows the sample relation to be 100 blocks long; in \<open>chained_world\<close> an earlier filter
  is installed that skips every block.
\<close>

definition sample_record :: XLogReaderState where
  "sample_record =
     \<lparr>EndRecPtr = 5000,
      block_tags = [0 \<mapsto> (\<lparr>spcNode = 1663, dbNode = 12345, relNode = 16384\<rparr>, MAIN_FORKNUM, 42)]\<rparr>"

definition shared_record :: XLogReaderState where
  "shared_record =
     \<lparr>EndRecPtr = 5000,
      block_tags = [0 \<mapsto> (\<lparr>spcNode = 1664, dbNode = 0, relNode = 1262\<rparr>, MAIN_FORKNUM, 42)]\<rparr>"

definition cached_world :: world where
  "cached_world =
     sample_world\<lparr>relsize_cache :=
        [(\<lparr>spcNode = 1663, dbNode = 12345, relNode = 16384\<rparr>, MAIN_FORKNUM) \<mapsto> 100]\<rparr>"

definition chained_world :: world where
  "chained_world = cached_world\<lparr>old_redo_read_buffer_filter := Some (\<lambda>record block_id. True)\<rparr>"

text \<open>
  \<open>buffered_world\<close>: \<open>cached_world\<close> with every block in shared buffers.
  \<open>error_reply_ring\<close>: an empty ring on a connection that accepts one request and
  answers it with an error response.
\<close>

definition buffered_world :: world where
  "buffered_world = cached_world\<lparr>BufTableLookup := (\<lambda>tag. 5)\<rparr>"

definition error_reply_ring :: pipeline where
  "error_reply_ring = neon_init 4 8 [True] [True] [Some (NeonErrorResponse [])]"

text \<open>\<open>cached_world\<close> while a shutdown is requested.\<close>

definition shutdown_world :: world where
  "shutdown_world = cached_world\<lparr>ShutdownRequestPending := True\<rparr>"

section \<open>Properties\<close>

text \<open>
  C7.  The abort hook (\<open>XACT_EVENT_ABORT\<close>, \<open>XACT_EVENT_PARALLEL_ABORT\<close>) always returns,
  and leaves the build state reset to \<open>UNLOGGED_BUILD_NOT_IN_PROGRESS\<close>.  Every other
  event (commit, prepare and their pre- and parallel variants) raises exactly when a
  build is in progress; the error is the internal "not properly finished" error, and the
  state it leaves has been reset to \<open>UNLOGGED_BUILD_NOT_IN_PROGRESS\<close>; otherwise the
  hook returns and leaves the state as it was.
\<close>

theorem AtEOXact_neon_resets_or_raises:
  "(is_abort_event ev \<longrightarrow> AtEOXact_neon ev b = Returns () (forget_build b))
   \<and> (\<not> is_abort_event ev \<longrightarrow>
        ((\<exists>e b'. AtEOXact_neon ev b = Raises e b')
            \<longleftrightarrow> unlogged_build_phase b \<noteq> UNLOGGED_BUILD_NOT_IN_PROGRESS)
        \<and> (unlogged_build_phase b \<noteq> UNLOGGED_BUILD_NOT_IN_PROGRESS \<longrightarrow>
             AtEOXact_neon ev b = Raises unlogged_build_not_finished (forget_build b))
        \<and> (unlogged_build_phase b = UNLOGGED_BUILD_NOT_IN_PROGRESS \<longrightarrow>
             AtEOXact_neon ev b = Returns () b))
   \<and> unlogged_build_phase (forget_build b) = UNLOGGED_BUILD_NOT_IN_PROGRESS
   \<and> unlogged_build_rel (forget_build b) = None"
  by (cases ev) (simp_all add: is_abort_event_def commit_like_def forget_build_def)

theorem AtEOXact_neon_resets_or_raises_witness:
  "AtEOXact_neon XACT_EVENT_ABORT
      \<lparr>unlogged_build_rel = None, unlogged_build_phase = UNLOGGED_BUILD_PHASE_1\<rparr>
     = Returns () \<lparr>unlogged_build_rel = None, unlogged_build_phase = UNLOGGED_BUILD_NOT_IN_PROGRESS\<rparr>
   \<and> AtEOXact_neon XACT_EVENT_COMMIT
      \<lparr>unlogged_build_rel = None, unlogged_build_phase = UNLOGGED_BUILD_PHASE_2\<rparr>
     = Raises unlogged_build_not_finished
         \<lparr>unlogged_build_rel = None, unlogged_build_phase = UNLOGGED_BUILD_NOT_IN_PROGRESS\<rparr>
   \<and> AtEOXact_neon XACT_EVENT_PREPARE
      \<lparr>unlogged_build_rel = None, unlogged_build_phase = UNLOGGED_BUILD_NOT_IN_PROGRESS\<rparr>
     = Returns () \<lparr>unlogged_build_rel = None, unlogged_build_phase = UNLOGGED_BUILD_NOT_IN_PROGRESS\<rparr>"
  using AtEOXact_neon_resets_or_raises
          [of XACT_EVENT_ABORT "\<lparr>unlogged_build_rel = None, unlogged_build_phase = UNLOGGED_BUILD_PHASE_1\<rparr>"]
        AtEOXact_neon_resets_or_raises
          [of XACT_EVENT_COMMIT "\<lparr>unlogged_build_rel = None, unlogged_build_phase = UNLOGGED_BUILD_PHASE_2\<rparr>"]
        AtEOXact_neon_resets_or_raises
          [of XACT_EVENT_PREPARE "\<lparr>unlogged_build_rel = None, unlogged_build_phase = UNLOGGED_BUILD_NOT_IN_PROGRESS\<rparr>"]
  by (simp add: is_abort_event_def forget_build_def)

text \<open>
  C5.  With no shutdown pending, WAL insertion allowed, \<open>force\<close> false, a fork other than
  FSM and visibility map, and a page whose LSN is zero: if the page is new
  (\<open>PageIsNew\<close>) or equal to a freshly initialised empty heap page, the call returns and
  its only effect is to record the (zero) LSN with \<open>SetLastWrittenLSNForBlock\<close>; no
  \<open>log_newpage\<close> and no \<open>XLogFlush\<close> happens.  In every other zero-LSN case the call
  raises the "evicted with zero LSN" error, whose level is \<open>PANIC\<close>.
\<close>

theorem neon_wallog_page_zero_lsn:
  assumes "\<not> ShutdownRequestPending w" and "XLogInsertAllowed w" and "\<not> force"
    and "forknum \<noteq> FSM_FORKNUM" and "forknum \<noteq> VISIBILITYMAP_FORKNUM"
    and "PageGetLSN w buffer = InvalidXLogRecPtr"
  shows "(PageIsNew w buffer \<or> PageIsEmptyHeapPage w buffer \<longrightarrow>
            neon_wallog_page reln forknum blocknum buffer force w
              = Returns () (do_call (Call_SetLastWrittenLSNForBlock InvalidXLogRecPtr
                                        (smgr_rnode reln) forknum blocknum) w))
       \<and> (\<not> PageIsNew w buffer \<and> \<not> PageIsEmptyHeapPage w buffer \<longrightarrow>
            neon_wallog_page reln forknum blocknum buffer force w = Raises evicted_with_zero_LSN w
            \<and> error_level evicted_with_zero_LSN = PANIC)"
  using assms by (simp add: neon_wallog_page_def Let_def)

theorem neon_wallog_page_zero_lsn_witness:
  "neon_wallog_page sample_rel MAIN_FORKNUM 3 [0, 0, 0] False sample_world
     = Returns () (do_call (Call_SetLastWrittenLSNForBlock InvalidXLogRecPtr
                              (smgr_rnode sample_rel) MAIN_FORKNUM 3) sample_world)
   \<and> neon_wallog_page sample_rel MAIN_FORKNUM 3 [0, 24] False sample_world
     = Returns () (do_call (Call_SetLastWrittenLSNForBlock InvalidXLogRecPtr
                              (smgr_rnode sample_rel) MAIN_FORKNUM 3) sample_world)
   \<and> neon_wallog_page sample_rel MAIN_FORKNUM 3 [0, 7] False sample_world
     = Raises evicted_with_zero_LSN sample_world"
  using neon_wallog_page_zero_lsn [of sample_world False MAIN_FORKNUM "[0, 0, 0]" sample_rel 3]
        neon_wallog_page_zero_lsn [of sample_world False MAIN_FORKNUM "[0, 24]" sample_rel 3]
        neon_wallog_page_zero_lsn [of sample_world False MAIN_FORKNUM "[0, 7]" sample_rel 3]
  by (simp add: sample_world_def InvalidXLogRecPtr_def PageIsEmptyHeapPage_def)

subsection \<open>Codec\<close>

lemma pack_first_byte:
  "is_request m \<Longrightarrow> \<exists>bs. nm_pack_request wr m = Inr (tag_byte wr (messageTag m) # bs)"
  by (cases m) (simp_all add: pack_rel_def pack_req_def pq_sendbyte_def pq_sendint32_def pq_sendint64_def)

lemma unpack_refuses_request_tag:
  assumes "inj (tag_byte wr)" "is_request m"
  shows "nm_unpack_response wr (tag_byte wr (messageTag m) # bs)
           = Inl (unexpected_neon_message_tag (tag_byte wr (messageTag m)))"
proof -
  have ne: "\<And>a b. a \<noteq> b \<Longrightarrow> tag_byte wr a \<noteq> tag_byte wr b"
    using assms(1) by (auto dest: injD)
  from assms(2) show ?thesis
    by (cases m) (simp_all add: nm_unpack_response_def pq_getmsgbyte_def ne)
qed

lemma getmsgbytes_append:
  "pq_getmsgbytes s n c = Inr r \<Longrightarrow> pq_getmsgbytes (s @ t) n c = Inr r"
  by (auto simp: pq_getmsgbytes_def split: if_splits)

lemma getmsgbyte_append:
  "pq_getmsgbyte s c = Inr r \<Longrightarrow> pq_getmsgbyte (s @ t) c = Inr r"
  by (auto simp: pq_getmsgbyte_def nth_append split: if_splits)

lemma getmsgint4_append:
  "pq_getmsgint4 s c = Inr r \<Longrightarrow> pq_getmsgint4 (s @ t) c = Inr r"
  using getmsgbytes_append[of s 4 c _ t]
  by (auto simp: pq_getmsgint4_def split: sum.splits)

lemma getmsgint64_append:
  "pq_getmsgint64 s c = Inr r \<Longrightarrow> pq_getmsgint64 (s @ t) c = Inr r"
  using getmsgbytes_append[of s 8 c _ t]
  by (auto simp: pq_getmsgint64_def split: sum.splits)

lemma getmsgrawstring_append:
  assumes "pq_getmsgrawstring s c = Inr r"
  shows "pq_getmsgrawstring (s @ t) c = Inr r"
proof -
  define str where "str = takeWhile (\<lambda>b. b \<noteq> 0) (drop c s)"
  from assms have lt: "c + length str < length s" and r: "r = (str, c + length str + 1)"
    by (auto simp: pq_getmsgrawstring_def Let_def str_def split: if_splits)
  have "\<exists>x\<in>set (drop c s). x = 0"
  proof (rule ccontr)
    assume "\<not> (\<exists>x\<in>set (drop c s). x = 0)"
    then have "\<forall>x\<in>set (drop c s). x \<noteq> 0" by blast
    then have "str = drop c s" unfolding str_def by (simp only: takeWhile_eq_all_conv)
    with lt show False by simp
  qed
  then obtain x where x: "x \<in> set (drop c s)" "\<not> x \<noteq> 0" by blast
  have "takeWhile (\<lambda>b. b \<noteq> 0) (drop c s @ t) = str"
    unfolding str_def using x by (rule takeWhile_append1)
  moreover from lt have "drop c (s @ t) = drop c s @ t" by simp
  ultimately have "takeWhile (\<lambda>b. b \<noteq> 0) (drop c (s @ t)) = str" by simp
  then show ?thesis using lt r
    by (simp add: pq_getmsgrawstring_def Let_def)
qed

lemma finish_Inr: "finish s c m = Inr r \<longleftrightarrow> (c = length s \<and> r = m)"
  by (auto simp: finish_def pq_getmsgend_def)

lemma finish_trailing:
  "c \<le> length s \<Longrightarrow> t \<noteq> [] \<Longrightarrow> finish (s @ t) c m = Inl invalid_message_format"
  by (auto simp: finish_def pq_getmsgend_def)

lemma branch_trailing:
  assumes "\<And>r. x = Inr r \<Longrightarrow> y = Inr r"
    and "(case x of Inl e \<Rightarrow> Inl e | Inr (v, c1) \<Rightarrow> finish s c1 (f v)) = Inr r"
    and "t \<noteq> []"
  shows "(case y of Inl e \<Rightarrow> Inl e | Inr (v, c1) \<Rightarrow> finish (s @ t) c1 (f v))
           = Inl invalid_message_format"
proof -
  from assms(2) obtain v c1 where x: "x = Inr (v, c1)" and "finish s c1 (f v) = Inr r"
    by (auto split: sum.splits)
  then have "c1 = length s" by (simp add: finish_Inr)
  moreover from x assms(1) have "y = Inr (v, c1)" by simp
  ultimately show ?thesis using assms(3) by (simp add: finish_trailing)
qed

lemma unpack_trailing:
  assumes "nm_unpack_response wr s = Inr r" "t \<noteq> []"
  shows "nm_unpack_response wr (s @ t) = Inl invalid_message_format"
proof -
  from assms(1) obtain tag c where b: "pq_getmsgbyte s 0 = Inr (tag, c)"
    by (auto simp: nm_unpack_response_def split: sum.splits)
  have b': "pq_getmsgbyte (s @ t) 0 = Inr (tag, c)" by (rule getmsgbyte_append[OF b])
  consider (ex) "tag = tag_byte wr T_NeonExistsResponse"
    | (nb) "tag \<noteq> tag_byte wr T_NeonExistsResponse" "tag = tag_byte wr T_NeonNblocksResponse"
    | (gp) "tag \<noteq> tag_byte wr T_NeonExistsResponse" "tag \<noteq> tag_byte wr T_NeonNblocksResponse"
           "tag = tag_byte wr T_NeonGetPageResponse"
    | (db) "tag \<noteq> tag_byte wr T_NeonExistsResponse" "tag \<noteq> tag_byte wr T_NeonNblocksResponse"
           "tag \<noteq> tag_byte wr T_NeonGetPageResponse" "tag = tag_byte wr T_NeonDbSizeResponse"
    | (er) "tag \<noteq> tag_byte wr T_NeonExistsResponse" "tag \<noteq> tag_byte wr T_NeonNblocksResponse"
           "tag \<noteq> tag_byte wr T_NeonGetPageResponse" "tag \<noteq> tag_byte wr T_NeonDbSizeResponse"
           "tag = tag_byte wr T_NeonErrorResponse"
    | (other) "tag \<noteq> tag_byte wr T_NeonExistsResponse" "tag \<noteq> tag_byte wr T_NeonNblocksResponse"
           "tag \<noteq> tag_byte wr T_NeonGetPageResponse" "tag \<noteq> tag_byte wr T_NeonDbSizeResponse"
           "tag \<noteq> tag_byte wr T_NeonErrorResponse"
    by blast
  then show ?thesis
  proof cases
    case ex
    with assms(1) b have "(case pq_getmsgbyte s c of Inl e \<Rightarrow> Inl e
        | Inr (v, c1) \<Rightarrow> finish s c1 (NeonExistsResponse (v \<noteq> 0))) = Inr r"
      by (simp add: nm_unpack_response_def)
    from branch_trailing[OF getmsgbyte_append this assms(2)] ex b' show ?thesis
      by (simp add: nm_unpack_response_def)
  next
    case nb
    with assms(1) b have "(case pq_getmsgint4 s c of Inl e \<Rightarrow> Inl e
        | Inr (v, c1) \<Rightarrow> finish s c1 (NeonNblocksResponse v)) = Inr r"
      by (simp add: nm_unpack_response_def)
    from branch_trailing[OF getmsgint4_append this assms(2)] nb b' show ?thesis
      by (simp add: nm_unpack_response_def)
  next
    case gp
    with assms(1) b have "(case pq_getmsgbytes s (BLCKSZ wr) c of Inl e \<Rightarrow> Inl e
        | Inr (v, c1) \<Rightarrow> finish s c1 (NeonGetPageResponse v)) = Inr r"
      by (simp add: nm_unpack_response_def)
    from branch_trailing[OF getmsgbytes_append this assms(2)] gp b' show ?thesis
      by (simp add: nm_unpack_response_def)
  next
    case db
    with assms(1) b have "(case pq_getmsgint64 s c of Inl e \<Rightarrow> Inl e
        | Inr (v, c1) \<Rightarrow> finish s c1 (NeonDbSizeResponse v)) = Inr r"
      by (simp add: nm_unpack_response_def)
    from branch_trailing[OF getmsgint64_append this assms(2)] db b' show ?thesis
      by (simp add: nm_unpack_response_def)
  next
    case er
    with assms(1) b have "(case pq_getmsgrawstring s c of Inl e \<Rightarrow> Inl e
        | Inr (v, c1) \<Rightarrow> finish s c1 (NeonErrorResponse v)) = Inr r"
      by (simp add: nm_unpack_response_def)
    from branch_trailing[OF getmsgrawstring_append this assms(2)] er b' show ?thesis
      by (simp add: nm_unpack_response_def)
  next
    case other
    with assms(1) b show ?thesis by (simp add: nm_unpack_response_def)
  qed
qed

lemma of_be_be32: "of_be (be32 x) = (x :: 32 word)"
proof (rule bit_word_eqI)
  fix n assume n: "n < LENGTH(32)"
  then consider "n < 8" | "8 \<le> n" "n < 16" | "16 \<le> n" "n < 24" | "24 \<le> n" "n < 32"
    by fastforce
  then show "bit (of_be (be32 x) :: 32 word) n = bit x n"
    by cases (auto simp: be32_def bit_simps)
qed

lemma of_be_be64: "of_be (be64 x) = (x :: 64 word)"
proof (rule bit_word_eqI)
  fix n assume n: "n < LENGTH(64)"
  then consider "n < 8" | "8 \<le> n" "n < 16" | "16 \<le> n" "n < 24" | "24 \<le> n" "n < 32"
    | "32 \<le> n" "n < 40" | "40 \<le> n" "n < 48" | "48 \<le> n" "n < 56" | "56 \<le> n" "n < 64"
    by fastforce
  then show "bit (of_be (be64 x) :: 64 word) n = bit x n"
    by cases (auto simp: be64_def bit_simps)
qed

lemma be32_inj: "be32 x = be32 y \<longleftrightarrow> x = y"
  by (metis of_be_be32)

lemma be64_inj: "be64 x = be64 y \<longleftrightarrow> x = y"
  by (metis of_be_be64)

lemma length_be32: "length (be32 x) = 4"
  by (simp add: be32_def)

lemma length_be64: "length (be64 x) = 8"
  by (simp add: be64_def)

lemma forknum_byte_inj: "forknum_byte a = forknum_byte b \<longleftrightarrow> a = b"
  by (cases a; cases b) simp_all

lemma bool_byte_inj: "bool_byte a = bool_byte b \<longleftrightarrow> a = b"
  by (simp add: bool_byte_def)

lemma nm_pack_request_inj:
  assumes "inj (tag_byte wr)" "nm_pack_request wr m1 = Inr bs" "nm_pack_request wr m2 = Inr bs"
  shows "m1 = m2"
proof -
  have ne: "\<And>a b. tag_byte wr a = tag_byte wr b \<longleftrightarrow> a = b"
    using assms(1) by (auto dest: injD)
  from assms(2,3) show ?thesis
    by (cases m1; cases m2)
       (auto simp: pack_rel_def pack_req_def pq_sendbyte_def pq_sendint32_def pq_sendint64_def ne
          RelFileNode.equality be32_inj be64_inj length_be32 length_be64 forknum_byte_inj
          bool_byte_inj)
qed

lemma unpack_gives_response: "nm_unpack_response wr s = Inr r \<Longrightarrow> \<not> is_request r"
  by (auto simp: nm_unpack_response_def finish_Inr split: sum.splits if_splits)

lemma neon_wire_inj: "inj (tag_byte neon_wire)"
  by (rule injI) (simp add: neon_wire_def split: NeonMessageTag.splits)

lemma byte_forknum_forknum_byte: "byte_forknum (forknum_byte fk) = Some fk"
  by (cases fk) (simp_all add: byte_forknum_def)

lemma bool_byte_nonzero: "(bool_byte b \<noteq> 0) = b"
  by (simp add: bool_byte_def)

lemma request_round_trip:
  assumes "inj (tag_byte wr)" "is_request m"
  shows "\<exists>bs. nm_pack_request wr m = Inr bs \<and> nm_unpack_request wr bs = Inr m"
proof -
  have ne: "\<And>a b. tag_byte wr a = tag_byte wr b \<longleftrightarrow> a = b"
    using assms(1) by (auto dest: injD)
  from assms(2) show ?thesis
    by (cases m)
       (simp_all add: nm_unpack_request_def request_body_def then_read_def unpack_req_def
          unpack_rel_def pq_getmsgbyte_def pq_getmsgint4_def pq_getmsgint64_def pq_getmsgbytes_def
          pack_rel_def pack_req_def pq_sendbyte_def pq_sendint32_def pq_sendint64_def
          finish_def pq_getmsgend_def ne length_be32 length_be64 of_be_be32 of_be_be64
          byte_forknum_forknum_byte bool_byte_nonzero nth_append)
qed

lemma then_read_append:
  assumes "then_read x f = Inr r"
    and "\<And>v. x = Inr v \<Longrightarrow> x' = Inr v"
    and "\<And>v c. f v c = Inr r \<Longrightarrow> f' v c = Inr r"
  shows "then_read x' f' = Inr r"
proof -
  from assms(1) obtain v c where x: "x = Inr (v, c)" and f: "f v c = Inr r"
    by (auto simp: then_read_def split: sum.splits)
  from assms(2)[OF x] assms(3)[OF f] show ?thesis by (simp add: then_read_def)
qed

lemma unpack_req_append:
  assumes "unpack_req s c = Inr r" shows "unpack_req (s @ t) c = Inr r"
  using assms unfolding unpack_req_def
  by (elim then_read_append) (simp_all add: getmsgbyte_append getmsgint64_append)

lemma unpack_rel_append:
  assumes "unpack_rel s c = Inr r" shows "unpack_rel (s @ t) c = Inr r"
  using assms unfolding unpack_rel_def
  by (elim then_read_append) (simp_all add: getmsgbyte_append getmsgint4_append)

lemma request_body_append:
  assumes "request_body wr tag s c = Inr r" shows "request_body wr tag (s @ t) c = Inr r"
proof -
  have rq: "\<And>c v. unpack_req s c = Inr v \<Longrightarrow> unpack_req (s @ t) c = Inr v"
    by (rule unpack_req_append)
  have rl: "\<And>c v. unpack_rel s c = Inr v \<Longrightarrow> unpack_rel (s @ t) c = Inr v"
    by (rule unpack_rel_append)
  have i4: "\<And>c v. pq_getmsgint4 s c = Inr v \<Longrightarrow> pq_getmsgint4 (s @ t) c = Inr v"
    by (rule getmsgint4_append)
  consider (ex) "tag = tag_byte wr T_NeonExistsRequest"
    | (nb) "tag \<noteq> tag_byte wr T_NeonExistsRequest" "tag = tag_byte wr T_NeonNblocksRequest"
    | (db) "tag \<noteq> tag_byte wr T_NeonExistsRequest" "tag \<noteq> tag_byte wr T_NeonNblocksRequest"
           "tag = tag_byte wr T_NeonDbSizeRequest"
    | (gp) "tag \<noteq> tag_byte wr T_NeonExistsRequest" "tag \<noteq> tag_byte wr T_NeonNblocksRequest"
           "tag \<noteq> tag_byte wr T_NeonDbSizeRequest" "tag = tag_byte wr T_NeonGetPageRequest"
    | (other) "tag \<noteq> tag_byte wr T_NeonExistsRequest" "tag \<noteq> tag_byte wr T_NeonNblocksRequest"
           "tag \<noteq> tag_byte wr T_NeonDbSizeRequest" "tag \<noteq> tag_byte wr T_NeonGetPageRequest"
    by blast
  then show ?thesis
  proof cases
    case ex
    with assms have "then_read (unpack_req s c) (\<lambda>(latest, lsn) c1.
           then_read (unpack_rel s c1) (\<lambda>(rn, fk) c2.
           Inr (NeonExistsRequest latest lsn rn fk, c2))) = Inr r"
      by (simp add: request_body_def)
    then have "then_read (unpack_req (s @ t) c) (\<lambda>(latest, lsn) c1.
           then_read (unpack_rel (s @ t) c1) (\<lambda>(rn, fk) c2.
           Inr (NeonExistsRequest latest lsn rn fk, c2))) = Inr r"
      by (elim then_read_append; clarsimp simp: rq) (elim then_read_append; clarsimp simp: rl)
    with ex show ?thesis by (simp add: request_body_def)
  next
    case nb
    with assms have "then_read (unpack_req s c) (\<lambda>(latest, lsn) c1.
           then_read (unpack_rel s c1) (\<lambda>(rn, fk) c2.
           Inr (NeonNblocksRequest latest lsn rn fk, c2))) = Inr r"
      by (simp add: request_body_def)
    then have "then_read (unpack_req (s @ t) c) (\<lambda>(latest, lsn) c1.
           then_read (unpack_rel (s @ t) c1) (\<lambda>(rn, fk) c2.
           Inr (NeonNblocksRequest latest lsn rn fk, c2))) = Inr r"
      by (elim then_read_append; clarsimp simp: rq) (elim then_read_append; clarsimp simp: rl)
    with nb show ?thesis by (simp add: request_body_def)
  next
    case db
    with assms have "then_read (unpack_req s c) (\<lambda>(latest, lsn) c1.
           then_read (pq_getmsgint4 s c1) (\<lambda>db c2.
           Inr (NeonDbSizeRequest latest lsn db, c2))) = Inr r"
      by (simp add: request_body_def)
    then have "then_read (unpack_req (s @ t) c) (\<lambda>(latest, lsn) c1.
           then_read (pq_getmsgint4 (s @ t) c1) (\<lambda>db c2.
           Inr (NeonDbSizeRequest latest lsn db, c2))) = Inr r"
      by (elim then_read_append; clarsimp simp: rq) (elim then_read_append; clarsimp simp: i4)
    with db show ?thesis by (simp add: request_body_def)
  next
    case gp
    with assms have "then_read (unpack_req s c) (\<lambda>(latest, lsn) c1.
           then_read (unpack_rel s c1) (\<lambda>(rn, fk) c2.
           then_read (pq_getmsgint4 s c2) (\<lambda>blk c3.
           Inr (NeonGetPageRequest latest lsn rn fk blk, c3)))) = Inr r"
      by (simp add: request_body_def)
    then have "then_read (unpack_req (s @ t) c) (\<lambda>(latest, lsn) c1.
           then_read (unpack_rel (s @ t) c1) (\<lambda>(rn, fk) c2.
           then_read (pq_getmsgint4 (s @ t) c2) (\<lambda>blk c3.
           Inr (NeonGetPageRequest latest lsn rn fk blk, c3)))) = Inr r"
      by (elim then_read_append; clarsimp simp: rq)
         (elim then_read_append; clarsimp simp: rl; elim then_read_append; clarsimp simp: i4)
    with gp show ?thesis by (simp add: request_body_def)
  next
    case other
    with assms show ?thesis by (simp add: request_body_def)
  qed
qed

lemma unpack_request_trailing:
  assumes "nm_unpack_request wr s = Inr r" "t \<noteq> []"
  shows "nm_unpack_request wr (s @ t) = Inl invalid_message_format"
proof -
  from assms(1) obtain tag c where b: "pq_getmsgbyte s 0 = Inr (tag, c)"
    and rest: "then_read (request_body wr tag s c) (\<lambda>m c1. finish s c1 m) = Inr r"
    by (auto simp: nm_unpack_request_def then_read_def split: sum.splits)
  from rest obtain m c1 where body: "request_body wr tag s c = Inr (m, c1)"
    and fin: "finish s c1 m = Inr r"
    by (auto simp: then_read_def split: sum.splits)
  from fin have c1: "c1 = length s" by (simp add: finish_Inr)
  have b': "pq_getmsgbyte (s @ t) 0 = Inr (tag, c)" by (rule getmsgbyte_append[OF b])
  have body': "request_body wr tag (s @ t) c = Inr (m, c1)" by (rule request_body_append[OF body])
  from c1 assms(2) have "finish (s @ t) c1 m = Inl invalid_message_format"
    by (simp add: finish_trailing)
  with b' body' show ?thesis by (simp add: nm_unpack_request_def then_read_def)
qed

lemma unpack_request_gives_request: "nm_unpack_request wr s = Inr r \<Longrightarrow> is_request r"
  by (auto simp: nm_unpack_request_def request_body_def then_read_def finish_Inr
      split: sum.splits if_splits prod.splits)

text \<open>
  C9.  For each of the four request kinds (\<open>Exists\<close>, \<open>NBlocks\<close>, \<open>DbSize\<close>, \<open>GetPage\<close>)
  the encoder \<open>nm_pack_request\<close> succeeds and decoding its bytes by the wire layout gives
  the request back; the response decoder of the file, \<open>nm_unpack_response\<close>, refuses the
  same bytes with the "unexpected message tag" error.  A buffer that decodes, as a request
  or as a response, is consumed exactly: with any trailing bytes appended the decoder
  raises "invalid message format".  What the request decoder returns is a request, what
  the response decoder returns is not.  The tag bytes are assumed distinct.
\<close>

theorem codec_round_trip:
  assumes "inj (tag_byte wr)"
  shows "(is_request m \<longrightarrow>
            (\<exists>bs. nm_pack_request wr m = Inr bs
                 \<and> nm_unpack_request wr bs = Inr m
                 \<and> nm_unpack_response wr bs
                      = Inl (unexpected_neon_message_tag (tag_byte wr (messageTag m)))))
       \<and> (nm_unpack_request wr s = Inr r \<and> t \<noteq> [] \<longrightarrow>
            nm_unpack_request wr (s @ t) = Inl invalid_message_format)
       \<and> (nm_unpack_response wr s = Inr r \<and> t \<noteq> [] \<longrightarrow>
            nm_unpack_response wr (s @ t) = Inl invalid_message_format)
       \<and> (nm_unpack_request wr s = Inr r \<longrightarrow> is_request r)
       \<and> (nm_unpack_response wr s = Inr r \<longrightarrow> \<not> is_request r)"
proof -
  have rt: "\<exists>bs. nm_pack_request wr m = Inr bs
                 \<and> nm_unpack_request wr bs = Inr m
                 \<and> nm_unpack_response wr bs
                      = Inl (unexpected_neon_message_tag (tag_byte wr (messageTag m)))"
    if m: "is_request m"
  proof -
    from request_round_trip[OF assms m] obtain bs where
      bs: "nm_pack_request wr m = Inr bs" "nm_unpack_request wr bs = Inr m" by blast
    from pack_first_byte[OF m, of wr] bs(1) obtain bs' where
      "bs = tag_byte wr (messageTag m) # bs'" by auto
    with unpack_refuses_request_tag[OF assms m, of bs'] bs show ?thesis by simp
  qed
  have tq: "nm_unpack_request wr (s @ t) = Inl invalid_message_format"
    if "nm_unpack_request wr s = Inr r \<and> t \<noteq> []"
    using that unpack_request_trailing by blast
  have tp: "nm_unpack_response wr (s @ t) = Inl invalid_message_format"
    if "nm_unpack_response wr s = Inr r \<and> t \<noteq> []"
    using that unpack_trailing by blast
  have gq: "is_request r" if "nm_unpack_request wr s = Inr r"
    using that by (rule unpack_request_gives_request)
  have gp: "\<not> is_request r" if "nm_unpack_response wr s = Inr r"
    using that by (rule unpack_gives_response)
  from rt tq tp gq gp show ?thesis by blast
qed

theorem codec_round_trip_witness:
  "nm_pack_request neon_wire (NeonDbSizeRequest True 5 7)
     = Inr [3, 1, 0, 0, 0, 0, 0, 0, 0, 5, 0, 0, 0, 7]
   \<and> nm_unpack_request neon_wire [3, 1, 0, 0, 0, 0, 0, 0, 0, 5, 0, 0, 0, 7]
     = Inr (NeonDbSizeRequest True 5 7)
   \<and> nm_unpack_response neon_wire [3, 1, 0, 0, 0, 0, 0, 0, 0, 5, 0, 0, 0, 7]
     = Inl (unexpected_neon_message_tag 3)
   \<and> nm_unpack_request neon_wire ([3, 1, 0, 0, 0, 0, 0, 0, 0, 5, 0, 0, 0, 7] @ [0])
     = Inl invalid_message_format
   \<and> nm_pack_request neon_wire
       (NeonGetPageRequest False 258 \<lparr>spcNode = 1663, dbNode = 12345, relNode = 16384\<rparr>
          MAIN_FORKNUM 42)
     = Inr [2, 0, 0, 0, 0, 0, 0, 0, 1, 2, 0, 0, 6, 127, 0, 0, 48, 57, 0, 0, 64, 0, 0, 0, 0, 0, 42]
   \<and> nm_unpack_request neon_wire
       [2, 0, 0, 0, 0, 0, 0, 0, 1, 2, 0, 0, 6, 127, 0, 0, 48, 57, 0, 0, 64, 0, 0, 0, 0, 0, 42]
     = Inr (NeonGetPageRequest False 258 \<lparr>spcNode = 1663, dbNode = 12345, relNode = 16384\<rparr>
              MAIN_FORKNUM 42)
   \<and> nm_unpack_response neon_wire [100, 1] = Inr (NeonExistsResponse True)
   \<and> nm_unpack_response neon_wire ([100, 1] @ [0]) = Inl invalid_message_format"
proof -
  have pk: "nm_pack_request neon_wire (NeonDbSizeRequest True 5 7)
      = Inr [3, 1, 0, 0, 0, 0, 0, 0, 0, 5, 0, 0, 0, 7]"
    by (simp add: neon_wire_def pack_req_def pq_sendbyte_def pq_sendint32_def pq_sendint64_def
          be32_def be64_def bool_byte_def)
  have pg: "nm_pack_request neon_wire
       (NeonGetPageRequest False 258 \<lparr>spcNode = 1663, dbNode = 12345, relNode = 16384\<rparr>
          MAIN_FORKNUM 42)
     = Inr [2, 0, 0, 0, 0, 0, 0, 0, 1, 2, 0, 0, 6, 127, 0, 0, 48, 57, 0, 0, 64, 0, 0, 0, 0, 0, 42]"
    by (simp add: neon_wire_def pack_req_def pack_rel_def pq_sendbyte_def pq_sendint32_def
          pq_sendint64_def be32_def be64_def bool_byte_def drop_bit_eq_div)
  have u: "nm_unpack_response neon_wire [100, 1] = Inr (NeonExistsResponse True)"
    by (simp add: nm_unpack_response_def neon_wire_def pq_getmsgbyte_def finish_def pq_getmsgend_def)
  from codec_round_trip[OF neon_wire_inj, of "NeonDbSizeRequest True 5 7"] pk
  have a: "nm_unpack_request neon_wire [3, 1, 0, 0, 0, 0, 0, 0, 0, 5, 0, 0, 0, 7]
             = Inr (NeonDbSizeRequest True 5 7)"
    "nm_unpack_response neon_wire [3, 1, 0, 0, 0, 0, 0, 0, 0, 5, 0, 0, 0, 7]
             = Inl (unexpected_neon_message_tag 3)"
    by (simp_all add: neon_wire_def)
  from codec_round_trip[OF neon_wire_inj, of _ "[3, 1, 0, 0, 0, 0, 0, 0, 0, 5, 0, 0, 0, 7]"
         "NeonDbSizeRequest True 5 7" "[0]"] a(1)
  have b: "nm_unpack_request neon_wire ([3, 1, 0, 0, 0, 0, 0, 0, 0, 5, 0, 0, 0, 7] @ [0])
             = Inl invalid_message_format"
    by simp
  from codec_round_trip[OF neon_wire_inj,
         of "NeonGetPageRequest False 258 \<lparr>spcNode = 1663, dbNode = 12345, relNode = 16384\<rparr>
               MAIN_FORKNUM 42"] pg
  have c: "nm_unpack_request neon_wire
       [2, 0, 0, 0, 0, 0, 0, 0, 1, 2, 0, 0, 6, 127, 0, 0, 48, 57, 0, 0, 64, 0, 0, 0, 0, 0, 42]
     = Inr (NeonGetPageRequest False 258 \<lparr>spcNode = 1663, dbNode = 12345, relNode = 16384\<rparr>
              MAIN_FORKNUM 42)"
    by simp
  from codec_round_trip[OF neon_wire_inj, of _ "[100, 1]" "NeonExistsResponse True" "[0]"] u
  have d: "nm_unpack_response neon_wire ([100, 1] @ [0]) = Inl invalid_message_format"
    by simp
  from pk a b pg c u d show ?thesis by blast
qed

subsection \<open>Retiring a slot\<close>

lemmas ring_eval =
  prefetch_set_unused_def GetPrfPos_def GetPrfSlot_def set_slot_def prfh_delete_def prfh_insert_def
  ReceiveBufferNeedsCompaction_def c_div8_def to_uint64_def compact_prefetch_buffers_def
  compact_find.simps compact_move.simps move_slot_def prefetch_cleanup_trailing_unused.simps
  Let_def received_slot_def requested_slot_def unused_slot_def sample_tag_def

lemma set_unused_dead: "ring_index < ring_last p \<Longrightarrow> prefetch_set_unused ring_index p = p"
  by (simp add: prefetch_set_unused_def Let_def)

lemma set_unused_unused:
  "status (GetPrfSlot p ring_index) = PRFS_UNUSED \<Longrightarrow> prefetch_set_unused ring_index p = p"
  by (simp add: prefetch_set_unused_def Let_def GetPrfSlot_def)

lemma set_unused_twice:
  assumes "\<not> retire_compacts ring_index p"
  shows "prefetch_set_unused ring_index (prefetch_set_unused ring_index p)
           = prefetch_set_unused ring_index p"
proof (cases "ring_index < ring_last p \<or> status (GetPrfSlot p ring_index) = PRFS_UNUSED")
  case True
  then have "prefetch_set_unused ring_index p = p"
    using set_unused_dead set_unused_unused by blast
  then show ?thesis by simp
next
  case False
  define pos where "pos = GetPrfPos p ring_index"
  define p1 where "p1 = (if status (prf_buffer p pos) = PRFS_RECEIVED
                      then (set_slot pos ((prf_buffer p pos)\<lparr>response := None\<rparr>) p)
                              \<lparr>n_responses_buffered := n_responses_buffered p - 1,
                               n_unused := n_unused p + 1\<rparr>
                      else p)"
  define p2 where "p2 = set_slot pos unused_slot (prfh_delete pos p1)"
  have slot2: "status (prf_buffer p2 pos) = PRFS_UNUSED"
    by (simp add: p2_def set_slot_def unused_slot_def)
  have cap2: "readahead_buffer_size p2 = readahead_buffer_size p"
    and last2: "ring_last p2 = ring_last p"
    by (simp_all add: p2_def p1_def set_slot_def prfh_delete_def)
  have nc: "ReceiveBufferNeedsCompaction p2 = ReceiveBufferNeedsCompaction
            (p\<lparr>n_responses_buffered :=
                 (if status (GetPrfSlot p ring_index) = PRFS_RECEIVED
                  then n_responses_buffered p - 1 else n_responses_buffered p)\<rparr>)"
    by (simp add: ReceiveBufferNeedsCompaction_def p2_def p1_def set_slot_def prfh_delete_def
        GetPrfSlot_def pos_def)
  from False have q: "prefetch_set_unused ring_index p =
      (if ring_last p2 = ring_index then prefetch_cleanup_trailing_unused p2
       else if ReceiveBufferNeedsCompaction p2 then snd (compact_prefetch_buffers p2) else p2)"
    by (simp add: prefetch_set_unused_def Let_def GetPrfSlot_def
        pos_def[symmetric] p1_def[symmetric] p2_def[symmetric])
  show ?thesis
  proof (cases "ring_last p2 = ring_index")
    case True
    obtain k where k: "prefetch_cleanup_trailing_unused p2 = p2\<lparr>ring_last := k\<rparr>"
      using cleanup_shape[of p2] by blast
    have "status (GetPrfSlot (p2\<lparr>ring_last := k\<rparr>) ring_index) = PRFS_UNUSED"
      using slot2 cap2 by (simp add: GetPrfSlot_def GetPrfPos_def pos_def)
    then show ?thesis using q True k by (simp add: set_unused_unused)
  next
    case ne: False
    with False last2 have "ring_last p < ring_index" by simp
    with assms False nc have "\<not> ReceiveBufferNeedsCompaction p2"
      by (simp add: retire_compacts_def)
    moreover have "status (GetPrfSlot p2 ring_index) = PRFS_UNUSED"
      using slot2 cap2 by (simp add: GetPrfSlot_def GetPrfPos_def pos_def)
    ultimately show ?thesis using q ne by (simp add: set_unused_unused)
  qed
qed


text \<open>
  C10, as the code has it.  \<open>prefetch_set_unused\<close> changes nothing when the ring index is
  below \<open>ring_last\<close>, and nothing when the slot at the index is already unused.  Retiring
  the same index twice is the same as retiring it once whenever the first retirement does
  not compact the buffer.
\<close>

theorem prefetch_set_unused_noop:
  "(ring_index < ring_last p \<longrightarrow> prefetch_set_unused ring_index p = p)
   \<and> (status (GetPrfSlot p ring_index) = PRFS_UNUSED \<longrightarrow> prefetch_set_unused ring_index p = p)
   \<and> (\<not> retire_compacts ring_index p \<longrightarrow>
        prefetch_set_unused ring_index (prefetch_set_unused ring_index p)
          = prefetch_set_unused ring_index p)"
  using set_unused_dead set_unused_unused set_unused_twice by blast

theorem prefetch_set_unused_noop_witness:
  "prefetch_set_unused 1 (sample_ring\<lparr>ring_last := 2\<rparr>) = sample_ring\<lparr>ring_last := 2\<rparr>
   \<and> prefetch_set_unused 3 sample_ring = sample_ring
   \<and> prefetch_set_unused 0 (prefetch_set_unused 0 sample_ring) = prefetch_set_unused 0 sample_ring"
  using prefetch_set_unused_noop [of 1 "sample_ring\<lparr>ring_last := 2\<rparr>"]
        prefetch_set_unused_noop [of 3 sample_ring]
        prefetch_set_unused_noop [of 0 sample_ring]
  by (simp add: sample_ring_def GetPrfSlot_def GetPrfPos_def unused_slot_def retire_compacts_def)

text \<open>
  C10 as stated fails in its last part.  In the ring holding responses 0, 1 and 2,
  retiring index 1 leaves one gap among three slots, so the buffer is compacted: response
  0 moves into slot 1 and \<open>ring_last\<close> becomes 1.  Retiring index 1 again then drops
  response 0: one call leaves two buffered responses, two calls leave one.
\<close>

theorem prefetch_set_unused_twice_counterexample:
  "n_responses_buffered (prefetch_set_unused 1 sample_ring) = 2
   \<and> buftag (GetPrfSlot (prefetch_set_unused 1 sample_ring) 1) = sample_tag 0
   \<and> status (GetPrfSlot (prefetch_set_unused 1 sample_ring) 1) = PRFS_RECEIVED
   \<and> n_responses_buffered (prefetch_set_unused 1 (prefetch_set_unused 1 sample_ring)) = 1
   \<and> prefetch_set_unused 1 (prefetch_set_unused 1 sample_ring) \<noteq> prefetch_set_unused 1 sample_ring"
proof -
  have a: "n_responses_buffered (prefetch_set_unused 1 sample_ring) = 2
      \<and> buftag (GetPrfSlot (prefetch_set_unused 1 sample_ring) 1) = sample_tag 0
      \<and> status (GetPrfSlot (prefetch_set_unused 1 sample_ring) 1) = PRFS_RECEIVED"
    by (simp add: sample_ring_def ring_eval)
  have b: "n_responses_buffered (prefetch_set_unused 1 (prefetch_set_unused 1 sample_ring)) = 1"
    by (simp add: sample_ring_def ring_eval)
  from a b have "n_responses_buffered (prefetch_set_unused 1 (prefetch_set_unused 1 sample_ring))
      \<noteq> n_responses_buffered (prefetch_set_unused 1 sample_ring)"
    by simp
  then have "prefetch_set_unused 1 (prefetch_set_unused 1 sample_ring)
      \<noteq> prefetch_set_unused 1 sample_ring"
    by auto
  with a b show ?thesis by simp
qed

subsection \<open>Disconnect\<close>

lemma move_slot_status:
  "status (prf_buffer (move_slot s e p) pos) = status (prf_buffer p pos)
   \<or> status (prf_buffer (move_slot s e p) pos) = status (GetPrfSlot p s)
   \<or> status (prf_buffer (move_slot s e p) pos) = PRFS_UNUSED"
  by (simp add: move_slot_def Let_def set_slot_def prfh_insert_def prfh_delete_def GetPrfSlot_def
      unused_slot_def)

lemma move_slot_settled:
  assumes "received_window_settled p" "ring_last p \<le> s" "s < ring_receive p"
  shows "received_window_settled (move_slot s e p)"
proof -
  have fr: "ring_frame p (move_slot s e p)" by (rule move_slot_frame)
  have rl: "ring_last (move_slot s e p) = ring_last p" by (rule move_slot_ring_last)
  from assms have src: "settled_status (status (GetPrfSlot p s))"
    by (simp add: received_window_settled_def)
  show ?thesis
    unfolding received_window_settled_def
  proof (intro allI impI)
    fix k assume "ring_last (move_slot s e p) \<le> k \<and> k < ring_receive (move_slot s e p)"
    with fr rl have k: "ring_last p \<le> k" "k < ring_receive p" by (simp_all add: ring_frame_def)
    with assms(1) have old: "settled_status (status (prf_buffer p (GetPrfPos p k)))"
      by (simp add: received_window_settled_def GetPrfSlot_def)
    have pos: "GetPrfPos (move_slot s e p) k = GetPrfPos p k"
      using fr by (simp add: GetPrfPos_def ring_frame_def)
    from move_slot_status[of s e p "GetPrfPos p k"] old src
    show "settled_status (status (GetPrfSlot (move_slot s e p) k))"
      by (auto simp: GetPrfSlot_def pos settled_status_def)
  qed
qed

lemma compact_move_settled:
  "received_window_settled p \<Longrightarrow> s \<le> ring_receive p
     \<Longrightarrow> received_window_settled (fst (compact_move p s e n))"
proof (induction p s e n rule: compact_move.induct)
  case (1 p s e n)
  show ?case
  proof (cases "s > ring_last p")
    case False
    then show ?thesis using 1(3) by (subst compact_move.simps) simp
  next
    case True
    show ?thesis
    proof (cases "status (GetPrfSlot p (s - 1)) = PRFS_UNUSED")
      case u: True
      from 1(1)[OF True u 1(3)] 1(4) True u show ?thesis
        by (subst compact_move.simps) simp
    next
      case u: False
      from True 1(4) have rng: "ring_last p \<le> s - 1" "s - 1 < ring_receive p" by simp_all
      have m: "received_window_settled (move_slot (s - 1) e p)"
        by (rule move_slot_settled[OF 1(3) rng])
      have "ring_receive (move_slot (s - 1) e p) = ring_receive p"
        using move_slot_frame[of p "s - 1" e] by (simp add: ring_frame_def)
      with rng have "s - 1 \<le> ring_receive (move_slot (s - 1) e p)" by simp
      from 1(2)[OF True u m this] True u show ?thesis
        by (subst compact_move.simps) simp
    qed
  qed
qed

lemma compact_find_le: "fst (compact_find p s e) \<le> s"
proof (induction p s e rule: compact_find.induct)
  case (1 p s e)
  show ?case
  proof (cases "s > ring_last p \<and> status (GetPrfSlot p (s - 1)) \<noteq> PRFS_UNUSED")
    case True
    with 1 have "fst (compact_find p (s - 1) e) \<le> s - 1" by simp
    with True show ?thesis by (subst compact_find.simps) simp
  next
    case False
    then show ?thesis by (subst compact_find.simps) auto
  qed
qed

lemma cleanup_settled:
  "received_window_settled p \<Longrightarrow> received_window_settled (prefetch_cleanup_trailing_unused p)"
proof -
  assume a: "received_window_settled p"
  obtain k where k: "ring_last p \<le> k" "prefetch_cleanup_trailing_unused p = p\<lparr>ring_last := k\<rparr>"
    using cleanup_shape[of p] by blast
  show ?thesis using a k
    by (simp add: received_window_settled_def GetPrfSlot_def GetPrfPos_def)
qed

lemma compact_settled:
  assumes "received_window_settled p"
  shows "received_window_settled (snd (compact_prefetch_buffers p))"
proof -
  obtain s e where se: "compact_find p (ring_receive p) (ring_last p) = (s, e)"
    by (cases "compact_find p (ring_receive p) (ring_last p)") auto
  obtain q n where qn: "compact_move p s e 0 = (q, n)"
    by (cases "compact_move p s e 0") auto
  from compact_find_le[of p "ring_receive p" "ring_last p"] se have "s \<le> ring_receive p" by simp
  from compact_move_settled[OF assms this, of e 0] qn have "received_window_settled q" by simp
  then show ?thesis using se qn assms
    by (simp add: compact_prefetch_buffers_def cleanup_settled)
qed

lemma set_unused_settled:
  assumes "\<forall>k. ring_last p \<le> k \<and> k < ring_receive p \<and> GetPrfPos p k \<noteq> GetPrfPos p ring_index
              \<longrightarrow> settled_status (status (GetPrfSlot p k))"
    and "status (GetPrfSlot p ring_index) \<noteq> PRFS_UNUSED"
    and "ring_last p \<le> ring_index"
  shows "received_window_settled (prefetch_set_unused ring_index p)"
proof -
  define pos where "pos = GetPrfPos p ring_index"
  define p1 where "p1 = (if status (prf_buffer p pos) = PRFS_RECEIVED
                      then (set_slot pos ((prf_buffer p pos)\<lparr>response := None\<rparr>) p)
                              \<lparr>n_responses_buffered := n_responses_buffered p - 1,
                               n_unused := n_unused p + 1\<rparr>
                      else p)"
  define p2 where "p2 = set_slot pos unused_slot (prfh_delete pos p1)"
  have q: "prefetch_set_unused ring_index p =
      (if ring_last p2 = ring_index then prefetch_cleanup_trailing_unused p2
       else if ReceiveBufferNeedsCompaction p2 then snd (compact_prefetch_buffers p2) else p2)"
    using assms(2,3)
    by (simp add: prefetch_set_unused_def Let_def GetPrfSlot_def
        pos_def[symmetric] p1_def[symmetric] p2_def[symmetric])
  have buf2: "prf_buffer p2 = (prf_buffer p)(pos := unused_slot)"
    by (auto simp: p2_def p1_def set_slot_def prfh_delete_def)
  have c2: "ring_last p2 = ring_last p" "ring_receive p2 = ring_receive p"
    "readahead_buffer_size p2 = readahead_buffer_size p"
    by (simp_all add: p2_def p1_def set_slot_def prfh_delete_def)
  have "received_window_settled p2"
    unfolding received_window_settled_def
  proof (intro allI impI)
    fix k assume k: "ring_last p2 \<le> k \<and> k < ring_receive p2"
    show "settled_status (status (GetPrfSlot p2 k))"
    proof (cases "GetPrfPos p k = pos")
      case True
      then show ?thesis
        by (simp add: GetPrfSlot_def GetPrfPos_def c2 buf2 unused_slot_def settled_status_def)
    next
      case False
      with k c2 assms(1) have "settled_status (status (GetPrfSlot p k))"
        by (simp add: pos_def)
      with False show ?thesis
        by (simp add: GetPrfSlot_def GetPrfPos_def c2 buf2)
    qed
  qed
  then show ?thesis
    by (simp add: q cleanup_settled compact_settled)
qed

lemma disconnect_step_settled:
  assumes "received_window_settled p"
  shows "received_window_settled (disconnect_step p)"
proof -
  define ri where "ri = ring_receive p"
  define pos where "pos = GetPrfPos p ri"
  define p1 where "p1 = (set_slot pos ((prf_buffer p pos)\<lparr>status := PRFS_TAG_REMAINS\<rparr>) p)
                 \<lparr>n_requests_inflight := n_requests_inflight p - 1,
                  ring_receive := ring_receive p + 1\<rparr>"
  have ds: "disconnect_step p = prefetch_set_unused ri p1"
    by (simp add: disconnect_step_def Let_def p1_def pos_def ri_def)
  have c1: "ring_last p1 = ring_last p" "ring_receive p1 = ring_receive p + 1"
    "readahead_buffer_size p1 = readahead_buffer_size p"
    by (simp_all add: p1_def set_slot_def)
  have pos1: "\<And>k. GetPrfPos p1 k = GetPrfPos p k" by (simp add: GetPrfPos_def c1)
  have buf1: "prf_buffer p1 = (prf_buffer p)(pos := (prf_buffer p pos)\<lparr>status := PRFS_TAG_REMAINS\<rparr>)"
    by (simp add: p1_def set_slot_def)
  show ?thesis
  proof (cases "ring_last p1 \<le> ri")
    case False
    then have "prefetch_set_unused ri p1 = p1" by (simp add: prefetch_set_unused_def Let_def)
    moreover from False c1 have "received_window_settled p1"
      by (auto simp: received_window_settled_def ri_def)
    ultimately show ?thesis by (simp add: ds)
  next
    case True
    have a: "\<forall>k. ring_last p1 \<le> k \<and> k < ring_receive p1 \<and> GetPrfPos p1 k \<noteq> GetPrfPos p1 ri
              \<longrightarrow> settled_status (status (GetPrfSlot p1 k))"
    proof (intro allI impI)
      fix k assume k: "ring_last p1 \<le> k \<and> k < ring_receive p1 \<and> GetPrfPos p1 k \<noteq> GetPrfPos p1 ri"
      then have "k \<noteq> ri" by auto
      with k c1 have "ring_last p \<le> k" "k < ring_receive p" by (simp_all add: ri_def)
      with assms have "settled_status (status (GetPrfSlot p k))"
        by (simp add: received_window_settled_def)
      with k show "settled_status (status (GetPrfSlot p1 k))"
        by (simp add: GetPrfSlot_def pos1 buf1 pos_def)
    qed
    have b: "status (GetPrfSlot p1 ri) \<noteq> PRFS_UNUSED"
      by (simp add: GetPrfSlot_def pos1 buf1 pos_def)
    show ?thesis unfolding ds by (rule set_unused_settled[OF a b True])
  qed
qed

lemma disconnect_loop_props:
  "received_window_settled p \<Longrightarrow>
     received_window_settled (disconnect_loop p)
     \<and> ring_unused (disconnect_loop p) = ring_unused p
     \<and> ring_flush (disconnect_loop p) = ring_flush p
     \<and> ring_receive (disconnect_loop p) = max (ring_receive p) (ring_unused p)
     \<and> n_requests_inflight (disconnect_loop p)
         = n_requests_inflight p - int (ring_unused p - ring_receive p)
     \<and> readahead_buffer_size (disconnect_loop p) = readahead_buffer_size p"
proof (induction p rule: disconnect_loop.induct)
  case (1 p)
  show ?case
  proof (cases "ring_receive p < ring_unused p")
    case False
    then show ?thesis using 1(2) by (subst (1 2 3 4 5 6) disconnect_loop.simps) simp
  next
    case True
    from 1(1)[OF True disconnect_step_settled[OF 1(2)]] disconnect_step_counters[of p] True
    show ?thesis
      by (subst (1 2 3 4 5 6) disconnect_loop.simps) (auto simp: max_def)
  qed
qed


lemma mod_window_distinct:
  fixes a j k n :: nat
  assumes "a \<le> j" "j < k" "k < a + n"
  shows "j mod n \<noteq> k mod n"
proof
  assume "j mod n = k mod n"
  then have "k mod n = j mod n" by simp
  with assms(2) have "n dvd k - j" by (simp add: mod_eq_dvd_iff_nat)
  moreover from assms have "0 < k - j" "k - j < n" by simp_all
  ultimately show False by (auto dest: dvd_imp_le)
qed

lemma pos_distinct:
  assumes "ring_last p \<le> j" "j < k" "k < ring_last p + readahead_buffer_size p"
  shows "GetPrfPos p j \<noteq> GetPrfPos p k"
  using mod_window_distinct[OF assms] by (simp add: GetPrfPos_def)

lemma pos_less: "0 < readahead_buffer_size p \<Longrightarrow> GetPrfPos p k < readahead_buffer_size p"
  by (simp add: GetPrfPos_def)

lemma ring_consistent_cong:
  assumes "ring_consistent p"
    and "ring_last q = ring_last p" "ring_receive q = ring_receive p" "ring_unused q = ring_unused p"
    and "readahead_buffer_size q = readahead_buffer_size p"
    and "prf_buffer q = prf_buffer p" "prf_hash q = prf_hash p"
  shows "ring_consistent q" "received_tags q = received_tags p"
  using assms
  by (simp_all add: ring_consistent_def hash_exact_def received_tags_def GetPrfSlot_def GetPrfPos_def)

lemma cleanup_consistent:
  assumes "ring_consistent p"
  shows "ring_consistent (prefetch_cleanup_trailing_unused p)"
    and "received_tags (prefetch_cleanup_trailing_unused p) = received_tags p"
proof -
  obtain k where k: "ring_last p \<le> k" "k \<le> max (ring_last p) (ring_receive p)"
    "prefetch_cleanup_trailing_unused p = p\<lparr>ring_last := k\<rparr>"
    using cleanup_shape[of p] by blast
  from assms have "ring_last p \<le> ring_receive p" by (simp add: ring_consistent_def)
  with k have k2: "k \<le> ring_receive p" by simp
  from assms k(1) k2 show "ring_consistent (prefetch_cleanup_trailing_unused p)"
    by (simp add: k(3) ring_consistent_def hash_exact_def GetPrfSlot_def GetPrfPos_def)
  show "received_tags (prefetch_cleanup_trailing_unused p) = received_tags p"
    by (simp add: k(3) received_tags_def)
qed

lemma ring_consistent_facts:
  assumes "ring_consistent p"
  shows "ring_last p \<le> ring_receive p" "ring_receive p \<le> ring_unused p"
    "ring_unused p \<le> ring_last p + readahead_buffer_size p"
    "\<And>k. ring_receive p \<le> k \<Longrightarrow> k < ring_unused p \<Longrightarrow>
           status (prf_buffer p (GetPrfPos p k)) = PRFS_REQUESTED"
    "\<And>pos. pos < readahead_buffer_size p \<Longrightarrow> \<not> settled_status (status (prf_buffer p pos)) \<Longrightarrow>
           \<exists>k. ring_receive p \<le> k \<and> k < ring_unused p \<and> pos = GetPrfPos p k"
    "\<And>t pos. prf_hash p t = Some pos \<longleftrightarrow>
        (pos < readahead_buffer_size p \<and> status (prf_buffer p pos) \<noteq> PRFS_UNUSED
         \<and> buftag (prf_buffer p pos) = t)"
  using assms by (simp_all add: ring_consistent_def hash_exact_def GetPrfSlot_def)

lemma retire_consistent:
  assumes rc: "ring_consistent p" and lt: "ring_receive p < ring_unused p"
    and q: "ring_last q = ring_last p" "ring_receive q = ring_receive p + 1"
      "ring_unused q = ring_unused p" "readahead_buffer_size q = readahead_buffer_size p"
      "prf_buffer q = (prf_buffer p)(GetPrfPos p (ring_receive p) := unused_slot)"
      "prf_hash q = (prf_hash p)(buftag (prf_buffer p (GetPrfPos p (ring_receive p))) := None)"
  shows "ring_consistent q" "received_tags q = received_tags p"
proof -
  define n where "n = readahead_buffer_size p"
  define pos where "pos = GetPrfPos p (ring_receive p)"
  define t0 where "t0 = buftag (prf_buffer p pos)"
  note f = ring_consistent_facts[OF rc, folded n_def]
  from lt f(1,3) have npos: "0 < n" by simp
  then have posn: "pos < n" by (simp add: pos_def GetPrfPos_def n_def)
  have st0: "status (prf_buffer p pos) = PRFS_REQUESTED"
    using f(4)[of "ring_receive p"] lt by (simp add: pos_def)
  have h0: "prf_hash p t0 = Some pos"
    using f(6)[of t0 pos] posn st0 by (simp add: t0_def)
  have gp: "\<And>k. GetPrfPos q k = GetPrfPos p k" by (simp add: GetPrfPos_def q)
  have bq: "prf_buffer q = (prf_buffer p)(pos := unused_slot)" by (simp add: q pos_def)
  have hq: "prf_hash q = (prf_hash p)(t0 := None)" by (simp add: q pos_def t0_def)
  have fl': "status (GetPrfSlot q k) = PRFS_REQUESTED"
    if "ring_receive q \<le> k \<and> k < ring_unused q" for k
  proof -
    from that have k: "ring_receive p < k" "k < ring_unused p" by (simp_all add: q)
    from pos_distinct[of p "ring_receive p" k] f(1,3) k
    have "pos \<noteq> GetPrfPos p k" by (simp add: pos_def n_def)
    with f(4)[of k] k show ?thesis by (simp add: GetPrfSlot_def gp bq)
  qed
  have us': "\<exists>k. ring_receive q \<le> k \<and> k < ring_unused q \<and> pos' = GetPrfPos q k"
    if "pos' < readahead_buffer_size q \<and> \<not> settled_status (status (prf_buffer q pos'))" for pos'
  proof -
    from that have ne: "pos' \<noteq> pos"
      by (auto simp: bq unused_slot_def settled_status_def)
    with that have "pos' < n" "\<not> settled_status (status (prf_buffer p pos'))"
      by (simp_all add: bq q n_def)
    from f(5)[OF this] obtain k where k: "ring_receive p \<le> k" "k < ring_unused p"
      "pos' = GetPrfPos p k" by blast
    from k(3) ne have "k \<noteq> ring_receive p" by (auto simp: pos_def)
    with k show ?thesis by (intro exI[of _ k]) (simp add: q gp)
  qed
  have he': "hash_exact q"
    unfolding hash_exact_def
  proof (intro allI)
    fix t pos'
    show "prf_hash q t = Some pos' \<longleftrightarrow>
        (pos' < readahead_buffer_size q \<and> status (prf_buffer q pos') \<noteq> PRFS_UNUSED
         \<and> buftag (prf_buffer q pos') = t)"
    proof (cases "pos' = pos")
      case True
      have "prf_hash q t \<noteq> Some pos"
      proof (cases "t = t0")
        case True then show ?thesis by (simp add: hq)
      next
        case False
        with f(6)[of t pos] show ?thesis by (auto simp: hq t0_def)
      qed
      with True show ?thesis by (simp add: bq unused_slot_def)
    next
      case False
      show ?thesis
      proof (cases "t = t0")
        case True
        with h0 False f(6)[of t0 pos'] show ?thesis
          by (auto simp: hq bq q n_def)
      next
        case f2: False
        with False f(6)[of t pos'] show ?thesis by (simp add: hq bq q n_def)
      qed
    qed
  qed
  from f(1,2,3) lt fl' us' he' show "ring_consistent q"
    by (simp add: ring_consistent_def q n_def)
  have "(status (prf_buffer q pos') = PRFS_RECEIVED \<and> buftag (prf_buffer q pos') = t)
      = (status (prf_buffer p pos') = PRFS_RECEIVED \<and> buftag (prf_buffer p pos') = t)" for pos' t
    using st0 by (cases "pos' = pos") (simp_all add: bq unused_slot_def)
  then show "received_tags q = received_tags p"
    by (simp add: received_tags_def q)
qed

lemma move_fields:
  assumes "GetPrfPos p s \<noteq> GetPrfPos p e"
  shows "prf_buffer (move_slot s e p) =
           (prf_buffer p)
             (GetPrfPos p e := (prf_buffer p (GetPrfPos p e))
                \<lparr>buftag := buftag (prf_buffer p (GetPrfPos p s)),
                 status := status (prf_buffer p (GetPrfPos p s)),
                 response := response (prf_buffer p (GetPrfPos p s)),
                 effective_request_lsn := effective_request_lsn (prf_buffer p (GetPrfPos p s)),
                 my_ring_index := e\<rparr>,
              GetPrfPos p s := unused_slot)"
    and "prf_hash (move_slot s e p)
           = (prf_hash p)(buftag (prf_buffer p (GetPrfPos p s)) \<mapsto> GetPrfPos p e)"
    and "ring_last (move_slot s e p) = ring_last p"
    and "ring_receive (move_slot s e p) = ring_receive p"
    and "ring_unused (move_slot s e p) = ring_unused p"
    and "readahead_buffer_size (move_slot s e p) = readahead_buffer_size p"
  using assms
  by (auto simp: move_slot_def Let_def set_slot_def prfh_insert_def prfh_delete_def)

lemma move_consistent:
  assumes rc: "ring_consistent p" and s: "ring_last p \<le> s" "s < e" "e < ring_receive p"
    and live: "status (GetPrfSlot p s) \<noteq> PRFS_UNUSED"
    and empty: "status (GetPrfSlot p e) = PRFS_UNUSED"
  shows "ring_consistent (move_slot s e p)"
    and "received_tags (move_slot s e p) = received_tags p"
    and "status (GetPrfSlot (move_slot s e p) s) = PRFS_UNUSED"
    and "\<And>j. ring_last p \<le> j \<Longrightarrow> j < ring_receive p \<Longrightarrow> j \<noteq> s \<Longrightarrow> j \<noteq> e \<Longrightarrow>
            status (GetPrfSlot (move_slot s e p) j) = status (GetPrfSlot p j)"
proof -
  define n where "n = readahead_buffer_size p"
  define src where "src = GetPrfPos p s"
  define tgt where "tgt = GetPrfPos p e"
  define ts where "ts = buftag (prf_buffer p src)"
  define q where "q = move_slot s e p"
  define m where "m = (prf_buffer p tgt)
                \<lparr>buftag := buftag (prf_buffer p src),
                 status := status (prf_buffer p src),
                 response := response (prf_buffer p src),
                 effective_request_lsn := effective_request_lsn (prf_buffer p src),
                 my_ring_index := e\<rparr>"
  note f = ring_consistent_facts[OF rc, folded n_def]
  from s f(1,2,3) have win: "e < ring_last p + n" "s < ring_last p + n" by simp_all
  from win s have npos: "0 < n" by simp
  then have lt: "src < n" "tgt < n" by (simp_all add: src_def tgt_def GetPrfPos_def n_def)
  have d: "src \<noteq> tgt"
    using pos_distinct[of p s e] s win by (simp add: src_def tgt_def n_def)
  note mf = move_fields[of p s e, folded src_def tgt_def q_def, OF d, folded m_def ts_def]
  have gp: "\<And>k. GetPrfPos q k = GetPrfPos p k" by (simp add: GetPrfPos_def mf)
  have st_src: "status (prf_buffer p src) = PRFS_RECEIVED"
  proof (rule ccontr)
    assume a: "status (prf_buffer p src) \<noteq> PRFS_RECEIVED"
    with live have "\<not> settled_status (status (prf_buffer p src))"
      by (simp add: settled_status_def GetPrfSlot_def src_def)
    from f(5)[OF lt(1) this] obtain k where k: "ring_receive p \<le> k" "k < ring_unused p"
      "src = GetPrfPos p k" by blast
    from pos_distinct[of p s k] s k f(3) show False by (simp add: src_def n_def)
  qed
  have st_tgt: "status (prf_buffer p tgt) = PRFS_UNUSED"
    using empty by (simp add: GetPrfSlot_def tgt_def)
  have h_src: "prf_hash p ts = Some src"
    using f(6)[of ts src] lt st_src by (simp add: ts_def)
  have m_props: "status m = PRFS_RECEIVED" "buftag m = ts"
    by (simp_all add: m_def st_src ts_def)
  have bsrc: "prf_buffer q src = unused_slot" by (simp add: mf)
  have btgt: "prf_buffer q tgt = m" using d by (simp add: mf)
  have both: "prf_buffer q pos = prf_buffer p pos" if "pos \<noteq> src" "pos \<noteq> tgt" for pos
    using that by (simp add: mf)
  have inflight_pos: "GetPrfPos p k \<noteq> src \<and> GetPrfPos p k \<noteq> tgt"
    if "ring_receive p \<le> k" "k < ring_unused p" for k
    using pos_distinct[of p s k] pos_distinct[of p e k] s that f(3)
    by (auto simp: src_def tgt_def n_def)
  have fl': "status (GetPrfSlot q k) = PRFS_REQUESTED"
    if "ring_receive q \<le> k \<and> k < ring_unused q" for k
  proof -
    from that have k: "ring_receive p \<le> k" "k < ring_unused p" by (simp_all add: mf)
    from inflight_pos[OF k] both f(4)[OF k] show ?thesis by (simp add: GetPrfSlot_def gp)
  qed
  have us': "\<exists>k. ring_receive q \<le> k \<and> k < ring_unused q \<and> pos = GetPrfPos q k"
    if "pos < readahead_buffer_size q \<and> \<not> settled_status (status (prf_buffer q pos))" for pos
  proof -
    from that bsrc btgt m_props have ne: "pos \<noteq> src" "pos \<noteq> tgt"
      by (auto simp: unused_slot_def settled_status_def)
    with that both have "pos < n" "\<not> settled_status (status (prf_buffer p pos))"
      by (simp_all add: mf n_def)
    from f(5)[OF this] show ?thesis by (simp add: mf gp)
  qed
  have he': "hash_exact q"
    unfolding hash_exact_def
  proof (intro allI)
    fix t pos
    consider (src) "pos = src" | (tgt) "pos = tgt" | (other) "pos \<noteq> src" "pos \<noteq> tgt" by blast
    then show "prf_hash q t = Some pos \<longleftrightarrow>
        (pos < readahead_buffer_size q \<and> status (prf_buffer q pos) \<noteq> PRFS_UNUSED
         \<and> buftag (prf_buffer q pos) = t)"
    proof cases
      case src
      have "prf_hash q t \<noteq> Some src"
      proof (cases "t = ts")
        case True with d show ?thesis by (simp add: mf)
      next
        case False
        with f(6)[of t src] show ?thesis by (auto simp: mf ts_def)
      qed
      with src bsrc show ?thesis by (simp add: unused_slot_def)
    next
      case tgt
      have "prf_hash q t = Some tgt \<longleftrightarrow> t = ts"
      proof (cases "t = ts")
        case True then show ?thesis by (simp add: mf)
      next
        case False
        with f(6)[of t tgt] st_tgt show ?thesis by (simp add: mf)
      qed
      with tgt btgt m_props lt show ?thesis by (auto simp: mf n_def)
    next
      case other
      show ?thesis
      proof (cases "t = ts")
        case True
        with other h_src f(6)[of ts pos] both[OF other] show ?thesis
          by (auto simp: mf n_def)
      next
        case False
        with f(6)[of t pos] both[OF other] show ?thesis by (simp add: mf n_def)
      qed
    qed
  qed
  from f(1,2,3) fl' us' he' show "ring_consistent (move_slot s e p)"
    by (simp add: ring_consistent_def q_def[symmetric] mf n_def)
  show "received_tags (move_slot s e p) = received_tags p"
  proof (intro set_eqI iffI)
    fix t assume "t \<in> received_tags (move_slot s e p)"
    then obtain pos where pos: "pos < n" "status (prf_buffer q pos) = PRFS_RECEIVED"
      "buftag (prf_buffer q pos) = t"
      by (auto simp: received_tags_def q_def[symmetric] mf n_def)
    consider (src) "pos = src" | (tgt) "pos = tgt" | (other) "pos \<noteq> src" "pos \<noteq> tgt" by blast
    then show "t \<in> received_tags p"
    proof cases
      case src with pos bsrc show ?thesis by (simp add: unused_slot_def)
    next
      case tgt
      with pos btgt m_props have "t = ts" by simp
      with lt st_src show ?thesis by (auto simp: received_tags_def ts_def n_def)
    next
      case other
      with pos both[OF other] show ?thesis by (auto simp: received_tags_def n_def)
    qed
  next
    fix t assume "t \<in> received_tags p"
    then obtain pos where pos: "pos < n" "status (prf_buffer p pos) = PRFS_RECEIVED"
      "buftag (prf_buffer p pos) = t"
      by (auto simp: received_tags_def n_def)
    consider (src) "pos = src" | (tgt) "pos = tgt" | (other) "pos \<noteq> src" "pos \<noteq> tgt" by blast
    then have "\<exists>pos'. pos' < n \<and> status (prf_buffer q pos') = PRFS_RECEIVED
                \<and> buftag (prf_buffer q pos') = t"
    proof cases
      case src
      with pos have "t = ts" by (simp add: ts_def)
      with lt btgt m_props show ?thesis by (intro exI[of _ tgt]) simp
    next
      case tgt with pos st_tgt show ?thesis by simp
    next
      case other
      with pos both[OF other] show ?thesis by (intro exI[of _ pos]) simp
    qed
    then show "t \<in> received_tags (move_slot s e p)"
      by (simp add: received_tags_def q_def[symmetric] mf n_def)
  qed
  show "status (GetPrfSlot (move_slot s e p) s) = PRFS_UNUSED"
    using bsrc by (simp add: GetPrfSlot_def q_def[symmetric] gp src_def[symmetric] unused_slot_def)
  show "status (GetPrfSlot (move_slot s e p) j) = status (GetPrfSlot p j)"
    if j: "ring_last p \<le> j" "j < ring_receive p" "j \<noteq> s" "j \<noteq> e" for j
  proof -
    from j f(2,3) have jw: "j < ring_last p + n" by simp
    have "GetPrfPos p j \<noteq> src"
    proof (cases "j < s")
      case True
      from pos_distinct[of p j s] j True win show ?thesis by (simp add: src_def n_def)
    next
      case False
      with j have "s < j" by simp
      from pos_distinct[of p s j] s this jw show ?thesis by (simp add: src_def n_def)
    qed
    moreover have "GetPrfPos p j \<noteq> tgt"
    proof (cases "j < e")
      case True
      from pos_distinct[of p j e] j True win show ?thesis by (simp add: tgt_def n_def)
    next
      case False
      with j have "e < j" by simp
      from pos_distinct[of p e j] s this jw show ?thesis by (simp add: tgt_def n_def)
    qed
    ultimately show ?thesis
      using both by (simp add: GetPrfSlot_def q_def[symmetric] gp)
  qed
qed

lemma compact_find_shape:
  "compact_find p s0 e0 = (s, e) \<Longrightarrow> ring_last p < s \<Longrightarrow>
     s = e \<and> s < s0 \<and> status (GetPrfSlot p s) = PRFS_UNUSED"
proof (induction p s0 e0 rule: compact_find.induct)
  case (1 p s0 e0)
  show ?case
  proof (cases "s0 > ring_last p")
    case False
    with 1(2,3) show ?thesis by (subst (asm) compact_find.simps) simp
  next
    case True
    show ?thesis
    proof (cases "status (GetPrfSlot p (s0 - 1)) = PRFS_UNUSED")
      case u: True
      with True 1(2) have "s = s0 - 1" "e = s0 - 1"
        by (subst (asm) compact_find.simps, simp)+
      with True u show ?thesis by simp
    next
      case u: False
      with True 1(2) have "compact_find p (s0 - 1) e0 = (s, e)"
        by (subst (asm) compact_find.simps) simp
      from 1(1)[OF True u this 1(3)] show ?thesis by auto
    qed
  qed
qed

lemma compact_move_consistent:
  "ring_consistent p \<Longrightarrow>
   (ring_last p < s \<longrightarrow> s \<le> e \<and> e < ring_receive p
        \<and> (\<forall>j. s \<le> j \<and> j \<le> e \<longrightarrow> status (GetPrfSlot p j) = PRFS_UNUSED)) \<Longrightarrow>
     ring_consistent (fst (compact_move p s e n))
     \<and> received_tags (fst (compact_move p s e n)) = received_tags p"
proof (induction p s e n rule: compact_move.induct)
  case (1 p s e n)
  show ?case
  proof (cases "s > ring_last p")
    case False
    then show ?thesis using 1(3) by (subst (1 2) compact_move.simps) simp
  next
    case True
    with 1(4) have se: "s \<le> e" "e < ring_receive p"
      and gap: "\<And>j. s \<le> j \<Longrightarrow> j \<le> e \<Longrightarrow> status (GetPrfSlot p j) = PRFS_UNUSED"
      by simp_all
    show ?thesis
    proof (cases "status (GetPrfSlot p (s - 1)) = PRFS_UNUSED")
      case u: True
      have pre: "ring_last p < s - 1 \<longrightarrow> s - 1 \<le> e \<and> e < ring_receive p
        \<and> (\<forall>j. s - 1 \<le> j \<and> j \<le> e \<longrightarrow> status (GetPrfSlot p j) = PRFS_UNUSED)"
      proof (intro impI conjI allI)
        show "s - 1 \<le> e" using se by simp
        show "e < ring_receive p" by (rule se)
        fix j assume j: "s - 1 \<le> j \<and> j \<le> e"
        show "status (GetPrfSlot p j) = PRFS_UNUSED"
        proof (cases "j = s - 1")
          case True with u show ?thesis by simp
        next
          case False
          with j have "s \<le> j" by arith
          with j gap show ?thesis by simp
        qed
      qed
      from 1(1)[OF True u 1(3) pre] True u show ?thesis
        by (subst (1 2) compact_move.simps) simp
    next
      case u: False
      define q where "q = move_slot (s - 1) e p"
      from True se have rng: "ring_last p \<le> s - 1" "s - 1 < e" by simp_all
      have em: "status (GetPrfSlot p e) = PRFS_UNUSED" using gap[of e] se by simp
      note mc = move_consistent[OF 1(3) rng se(2) u em, folded q_def]
      have cq: "ring_last q = ring_last p" "ring_receive q = ring_receive p"
        by (simp_all add: q_def move_slot_ring_last)
           (use move_slot_frame[of p "s - 1" e] in \<open>simp add: ring_frame_def\<close>)
      have pre: "ring_last q < s - 1 \<longrightarrow> s - 1 \<le> e - 1 \<and> e - 1 < ring_receive q
        \<and> (\<forall>j. s - 1 \<le> j \<and> j \<le> e - 1 \<longrightarrow> status (GetPrfSlot q j) = PRFS_UNUSED)"
      proof (intro impI conjI allI)
        show "s - 1 \<le> e - 1" using rng by simp
        show "e - 1 < ring_receive q" using se cq by simp
        fix j assume j: "s - 1 \<le> j \<and> j \<le> e - 1"
        show "status (GetPrfSlot q j) = PRFS_UNUSED"
        proof (cases "j = s - 1")
          case True with mc(3) show ?thesis by simp
        next
          case False
          with j rng have jj: "s \<le> j" "j \<le> e" "j \<noteq> e" "j \<noteq> s - 1" by arith+
          with rng se have "ring_last p \<le> j" "j < ring_receive p" by simp_all
          from mc(4)[OF this jj(4,3)] gap[OF jj(1,2)] show ?thesis by simp
        qed
      qed
      from 1(2)[OF True u, folded q_def, OF mc(1) pre] mc(2) True u show ?thesis
        by (subst (1 2) compact_move.simps) (simp add: q_def)
    qed
  qed
qed

lemma compact_consistent:
  assumes "ring_consistent p"
  shows "ring_consistent (snd (compact_prefetch_buffers p))"
    and "received_tags (snd (compact_prefetch_buffers p)) = received_tags p"
proof -
  obtain s e where se: "compact_find p (ring_receive p) (ring_last p) = (s, e)"
    by (cases "compact_find p (ring_receive p) (ring_last p)") auto
  obtain q n where qn: "compact_move p s e 0 = (q, n)"
    by (cases "compact_move p s e 0") auto
  have pre: "ring_last p < s \<longrightarrow> s \<le> e \<and> e < ring_receive p
        \<and> (\<forall>j. s \<le> j \<and> j \<le> e \<longrightarrow> status (GetPrfSlot p j) = PRFS_UNUSED)"
    using compact_find_shape[OF se] by auto
  from compact_move_consistent[OF assms pre, of 0] qn
  have q: "ring_consistent q" "received_tags q = received_tags p" by simp_all
  show "ring_consistent (snd (compact_prefetch_buffers p))"
    using se qn q assms cleanup_consistent(1)[OF q(1)]
    by (simp add: compact_prefetch_buffers_def)
  show "received_tags (snd (compact_prefetch_buffers p)) = received_tags p"
    using se qn q assms cleanup_consistent(2)[OF q(1)]
    by (simp add: compact_prefetch_buffers_def)
qed

lemma disconnect_step_consistent:
  assumes rc: "ring_consistent p" and lt: "ring_receive p < ring_unused p"
  shows "ring_consistent (disconnect_step p)"
    and "received_tags (disconnect_step p) = received_tags p"
proof -
  define ri where "ri = ring_receive p"
  define pos where "pos = GetPrfPos p ri"
  define p1 where "p1 = (set_slot pos ((prf_buffer p pos)\<lparr>status := PRFS_TAG_REMAINS\<rparr>) p)
                 \<lparr>n_requests_inflight := n_requests_inflight p - 1,
                  ring_receive := ring_receive p + 1\<rparr>"
  define p2 where "p2 = set_slot pos unused_slot (prfh_delete pos p1)"
  have ds: "disconnect_step p = prefetch_set_unused ri p1"
    by (simp add: disconnect_step_def Let_def p1_def pos_def ri_def)
  have pos1: "GetPrfPos p1 ri = pos" by (simp add: GetPrfPos_def p1_def set_slot_def pos_def)
  have st1: "status (prf_buffer p1 pos) = PRFS_TAG_REMAINS" by (simp add: p1_def set_slot_def)
  have rl1: "ring_last p1 \<le> ri"
    using ring_consistent_facts(1)[OF rc] by (simp add: p1_def set_slot_def ri_def)
  have su: "prefetch_set_unused ri p1 =
      (if ring_last p2 = ri then prefetch_cleanup_trailing_unused p2
       else if ReceiveBufferNeedsCompaction p2 then snd (compact_prefetch_buffers p2) else p2)"
    using rl1 st1
    by (simp add: prefetch_set_unused_def Let_def pos1 p2_def)
  have c2: "ring_consistent p2" "received_tags p2 = received_tags p"
    by (rule retire_consistent[OF rc lt];
        simp add: p2_def p1_def set_slot_def prfh_delete_def pos_def ri_def)+
  from cleanup_consistent[OF c2(1)] compact_consistent[OF c2(1)] c2
  show "ring_consistent (disconnect_step p)"
    and "received_tags (disconnect_step p) = received_tags p"
    by (simp_all add: ds su)
qed

lemma disconnect_loop_consistent:
  "ring_consistent p \<Longrightarrow>
     ring_consistent (disconnect_loop p) \<and> received_tags (disconnect_loop p) = received_tags p"
proof (induction p rule: disconnect_loop.induct)
  case (1 p)
  show ?case
  proof (cases "ring_receive p < ring_unused p")
    case False
    then show ?thesis using 1(2) by (subst (1 2) disconnect_loop.simps) simp
  next
    case True
    from 1(1)[OF True disconnect_step_consistent(1)[OF 1(2) True]]
      disconnect_step_consistent(2)[OF 1(2) True] True
    show ?thesis by (subst (1 2) disconnect_loop.simps) simp
  qed
qed

lemma consistent_settled:
  assumes "ring_consistent p"
  shows "received_window_settled p"
  unfolding received_window_settled_def
proof (intro allI impI)
  fix k assume k: "ring_last p \<le> k \<and> k < ring_receive p"
  note f = ring_consistent_facts[OF assms]
  from k f(2,3) have npos: "0 < readahead_buffer_size p" by simp
  show "settled_status (status (GetPrfSlot p k))"
  proof (rule ccontr)
    assume "\<not> settled_status (status (GetPrfSlot p k))"
    with f(5)[of "GetPrfPos p k"] npos obtain k' where k': "ring_receive p \<le> k'"
      "k' < ring_unused p" "GetPrfPos p k = GetPrfPos p k'"
      by (auto simp: GetPrfSlot_def pos_less)
    from pos_distinct[of p k k'] k k' f(3) show False by simp
  qed
qed

text \<open>
  C3, as the code has it.  Let the ring be consistent.  After
  \<open>prefetch_on_ps_disconnect\<close>: \<open>ring_unused\<close> is unchanged; \<open>ring_receive\<close> and
  \<open>ring_flush\<close> equal \<open>ring_unused\<close>; \<open>n_requests_inflight\<close> has dropped by the number of
  slots that were between \<open>ring_receive\<close> and \<open>ring_unused\<close> (so it is zero when it
  counted exactly those).  Each slot that was in flight has been marked \<open>TAG_REMAINS\<close>
  and retired by \<open>prefetch_set_unused\<close> in the same turn of the loop: no slot of the
  buffer is left \<open>REQUESTED\<close> or \<open>TAG_REMAINS\<close>; the tag of every slot that was in flight
  is gone from the hash table; the hash table holds exactly the tags of the responses
  that were buffered before; and the ring is consistent again.
\<close>

theorem prefetch_on_ps_disconnect_retires:
  assumes "ring_consistent p"
  shows "ring_unused (prefetch_on_ps_disconnect p) = ring_unused p
       \<and> ring_receive (prefetch_on_ps_disconnect p) = ring_unused p
       \<and> ring_flush (prefetch_on_ps_disconnect p) = ring_unused p
       \<and> n_requests_inflight (prefetch_on_ps_disconnect p)
           = n_requests_inflight p - int (ring_unused p - ring_receive p)
       \<and> (n_requests_inflight p = int (ring_unused p - ring_receive p) \<longrightarrow>
            n_requests_inflight (prefetch_on_ps_disconnect p) = 0)
       \<and> (\<forall>pos. pos < readahead_buffer_size p \<longrightarrow>
            settled_status (status (prf_buffer (prefetch_on_ps_disconnect p) pos)))
       \<and> (\<forall>k. ring_receive p \<le> k \<and> k < ring_unused p \<longrightarrow>
            prf_hash (prefetch_on_ps_disconnect p) (buftag (GetPrfSlot p k)) = None)
       \<and> dom (prf_hash (prefetch_on_ps_disconnect p)) = received_tags p
       \<and> ring_consistent (prefetch_on_ps_disconnect p)"
proof -
  define p0 where "p0 = p\<lparr>ring_flush := ring_unused p\<rparr>"
  define p' where "p' = prefetch_on_ps_disconnect p"
  have q: "p' = disconnect_loop p0"
    by (simp add: prefetch_on_ps_disconnect_def p0_def p'_def)
  have c0: "ring_consistent p0" "received_tags p0 = received_tags p"
    by (rule ring_consistent_cong[OF assms]; simp add: p0_def)+
  note f = ring_consistent_facts[OF assms]
  from disconnect_loop_props[OF consistent_settled[OF c0(1)]] f(2)
  have props: "ring_unused p' = ring_unused p" "ring_flush p' = ring_unused p"
    "ring_receive p' = ring_unused p"
    "n_requests_inflight p' = n_requests_inflight p - int (ring_unused p - ring_receive p)"
    "readahead_buffer_size p' = readahead_buffer_size p"
    by (simp_all add: q p0_def max_def)
  from disconnect_loop_consistent[OF c0(1)] c0(2)
  have c': "ring_consistent p'" "received_tags p' = received_tags p" by (simp_all add: q)
  note f' = ring_consistent_facts[OF c'(1)]
  have settled: "settled_status (status (prf_buffer p' pos))"
    if "pos < readahead_buffer_size p" for pos
  proof (rule ccontr)
    assume "\<not> settled_status (status (prf_buffer p' pos))"
    with f'(5)[of pos] that props show False by auto
  qed
  have dm: "dom (prf_hash p') = received_tags p"
  proof (intro set_eqI iffI)
    fix t assume "t \<in> dom (prf_hash p')"
    then obtain pos where "prf_hash p' t = Some pos" by auto
    with f'(6)[of t pos] have pos: "pos < readahead_buffer_size p'"
      "status (prf_buffer p' pos) \<noteq> PRFS_UNUSED" "buftag (prf_buffer p' pos) = t" by simp_all
    with settled[of pos] props have "status (prf_buffer p' pos) = PRFS_RECEIVED"
      by (simp add: settled_status_def)
    with pos have "t \<in> received_tags p'" by (auto simp: received_tags_def)
    with c'(2) show "t \<in> received_tags p" by simp
  next
    fix t assume "t \<in> received_tags p"
    with c'(2) obtain pos where "pos < readahead_buffer_size p'"
      "status (prf_buffer p' pos) = PRFS_RECEIVED" "buftag (prf_buffer p' pos) = t"
      by (auto simp: received_tags_def)
    with f'(6)[of t pos] show "t \<in> dom (prf_hash p')" by auto
  qed
  have gone: "prf_hash p' (buftag (GetPrfSlot p k)) = None"
    if k: "ring_receive p \<le> k \<and> k < ring_unused p" for k
  proof (rule ccontr)
    assume "prf_hash p' (buftag (GetPrfSlot p k)) \<noteq> None"
    then have "buftag (GetPrfSlot p k) \<in> received_tags p" using dm by auto
    then obtain pos where pos: "pos < readahead_buffer_size p"
      "status (prf_buffer p pos) = PRFS_RECEIVED"
      "buftag (prf_buffer p pos) = buftag (GetPrfSlot p k)"
      by (auto simp: received_tags_def)
    from k f(1,3) have npos: "0 < readahead_buffer_size p" by simp
    from f(4)[of k] k have rq: "status (prf_buffer p (GetPrfPos p k)) = PRFS_REQUESTED" by simp
    from f(6)[of "buftag (GetPrfSlot p k)" pos] pos
    have h1: "prf_hash p (buftag (GetPrfSlot p k)) = Some pos" by simp
    from f(6)[of "buftag (GetPrfSlot p k)" "GetPrfPos p k"] rq pos_less[OF npos, of k]
    have h2: "prf_hash p (buftag (GetPrfSlot p k)) = Some (GetPrfPos p k)"
      by (simp add: GetPrfSlot_def)
    from h1 h2 pos(2) rq show False by simp
  qed
  from props settled gone dm c'(1) show ?thesis
    unfolding p'_def by simp
qed

lemma half_received_consistent: "ring_consistent half_received_ring"
proof -
  have he: "hash_exact half_received_ring"
    unfolding hash_exact_def
  proof (intro allI)
    fix t and pos :: nat
    consider "pos = 0" | "pos = 1" | "pos = 2" | "pos = 3" | "4 \<le> pos" by arith
    then show "prf_hash half_received_ring t = Some pos \<longleftrightarrow>
        (pos < readahead_buffer_size half_received_ring
         \<and> status (prf_buffer half_received_ring pos) \<noteq> PRFS_UNUSED
         \<and> buftag (prf_buffer half_received_ring pos) = t)"
      by cases
         (auto simp: half_received_ring_def received_slot_def requested_slot_def unused_slot_def
            sample_tag_def split: if_splits)
  qed
  have fl: "status (GetPrfSlot half_received_ring k) = PRFS_REQUESTED"
    if "ring_receive half_received_ring \<le> k \<and> k < ring_unused half_received_ring" for k
  proof -
    from that have "k = 1 \<or> k = 2" by (auto simp: half_received_ring_def)
    then show ?thesis
      by (auto simp: half_received_ring_def GetPrfSlot_def GetPrfPos_def requested_slot_def)
  qed
  have us: "\<exists>k. ring_receive half_received_ring \<le> k \<and> k < ring_unused half_received_ring
               \<and> pos = GetPrfPos half_received_ring k"
    if "pos < readahead_buffer_size half_received_ring
        \<and> \<not> settled_status (status (prf_buffer half_received_ring pos))" for pos
  proof -
    from that have "pos = 1 \<or> pos = 2"
      by (auto simp: half_received_ring_def settled_status_def received_slot_def unused_slot_def
          split: if_splits)
    then show ?thesis
      by (intro exI[of _ pos]) (auto simp: half_received_ring_def GetPrfPos_def)
  qed
  from he fl us show ?thesis
    by (simp add: ring_consistent_def) (simp add: half_received_ring_def)
qed

lemma half_received_tags: "received_tags half_received_ring = {sample_tag 0}"
proof (intro set_eqI iffI)
  fix t assume "t \<in> received_tags half_received_ring"
  then obtain pos where "status (prf_buffer half_received_ring pos) = PRFS_RECEIVED"
    "buftag (prf_buffer half_received_ring pos) = t"
    by (auto simp: received_tags_def)
  then show "t \<in> {sample_tag 0}"
    by (auto simp: half_received_ring_def received_slot_def requested_slot_def unused_slot_def
        split: if_splits)
next
  fix t assume "t \<in> {sample_tag 0}"
  then show "t \<in> received_tags half_received_ring"
    by (auto simp: received_tags_def half_received_ring_def received_slot_def intro!: exI[of _ 0])
qed

theorem prefetch_on_ps_disconnect_retires_witness:
  "ring_unused (prefetch_on_ps_disconnect half_received_ring) = 3
   \<and> ring_receive (prefetch_on_ps_disconnect half_received_ring) = 3
   \<and> ring_flush (prefetch_on_ps_disconnect half_received_ring) = 3
   \<and> n_requests_inflight (prefetch_on_ps_disconnect half_received_ring) = 0
   \<and> settled_status (status (prf_buffer (prefetch_on_ps_disconnect half_received_ring) 1))
   \<and> settled_status (status (prf_buffer (prefetch_on_ps_disconnect half_received_ring) 2))
   \<and> prf_hash (prefetch_on_ps_disconnect half_received_ring) (sample_tag 1) = None
   \<and> prf_hash (prefetch_on_ps_disconnect half_received_ring) (sample_tag 2) = None
   \<and> dom (prf_hash (prefetch_on_ps_disconnect half_received_ring)) = {sample_tag 0}"
proof -
  define q where "q = prefetch_on_ps_disconnect half_received_ring"
  note t = prefetch_on_ps_disconnect_retires[OF half_received_consistent, folded q_def]
  from t have c: "ring_unused q = ring_unused half_received_ring"
    "ring_receive q = ring_unused half_received_ring"
    "ring_flush q = ring_unused half_received_ring"
    "n_requests_inflight q = n_requests_inflight half_received_ring
        - int (ring_unused half_received_ring - ring_receive half_received_ring)"
    "\<forall>pos. pos < readahead_buffer_size half_received_ring \<longrightarrow>
            settled_status (status (prf_buffer q pos))"
    "\<forall>k. ring_receive half_received_ring \<le> k \<and> k < ring_unused half_received_ring \<longrightarrow>
            prf_hash q (buftag (GetPrfSlot half_received_ring k)) = None"
    "dom (prf_hash q) = received_tags half_received_ring"
    by blast+
  have r: "ring_unused half_received_ring = 3" "ring_receive half_received_ring = 1"
    "n_requests_inflight half_received_ring = 2" "readahead_buffer_size half_received_ring = 4"
    "buftag (GetPrfSlot half_received_ring 1) = sample_tag 1"
    "buftag (GetPrfSlot half_received_ring 2) = sample_tag 2"
    by (simp_all add: half_received_ring_def GetPrfSlot_def GetPrfPos_def requested_slot_def)
  from c(5)[rule_format, of 1] c(5)[rule_format, of 2] r(4)
  have s: "settled_status (status (prf_buffer q 1))" "settled_status (status (prf_buffer q 2))"
    by simp_all
  from c(6)[rule_format, of 1] c(6)[rule_format, of 2] r
  have g: "prf_hash q (sample_tag 1) = None" "prf_hash q (sample_tag 2) = None"
    by simp_all
  from c(1,2,3,4,7) r(1,2,3) s g half_received_tags show ?thesis
    unfolding q_def by simp
qed

text \<open>
  C3 as stated fails.  With requests 0, 1 and 2 in flight, after the disconnect hook the
  slot of request 0 is \<open>UNUSED\<close>, not \<open>TAG_REMAINS\<close>; its tag has been cleared and is no
  longer in the hash table.  The same holds for requests 1 and 2.
\<close>

theorem prefetch_on_ps_disconnect_counterexample:
  "status (GetPrfSlot inflight_ring 0) = PRFS_REQUESTED
   \<and> prf_hash inflight_ring (sample_tag 0) = Some 0
   \<and> status (GetPrfSlot (prefetch_on_ps_disconnect inflight_ring) 0) = PRFS_UNUSED
   \<and> buftag (GetPrfSlot (prefetch_on_ps_disconnect inflight_ring) 0) = zero_tag
   \<and> prf_hash (prefetch_on_ps_disconnect inflight_ring) (sample_tag 0) = None
   \<and> status (GetPrfSlot (prefetch_on_ps_disconnect inflight_ring) 1) = PRFS_UNUSED
   \<and> prf_hash (prefetch_on_ps_disconnect inflight_ring) (sample_tag 1) = None
   \<and> status (GetPrfSlot (prefetch_on_ps_disconnect inflight_ring) 2) = PRFS_UNUSED
   \<and> prf_hash (prefetch_on_ps_disconnect inflight_ring) (sample_tag 2) = None"
  by (simp add: inflight_ring_def prefetch_on_ps_disconnect_def disconnect_loop.simps
        disconnect_step_def ring_eval)

subsection \<open>Resizing, then registering\<close>

lemma prfh_insert_frame:
  "prf_buffer (prfh_insert pos p) = prf_buffer p \<and> ring_last (prfh_insert pos p) = ring_last p
   \<and> ring_receive (prfh_insert pos p) = ring_receive p \<and> ring_flush (prfh_insert pos p) = ring_flush p
   \<and> ring_unused (prfh_insert pos p) = ring_unused p
   \<and> readahead_buffer_size (prfh_insert pos p) = readahead_buffer_size p
   \<and> ps_send (prfh_insert pos p) = ps_send p
   \<and> flush_every_n_requests (prfh_insert pos p) = flush_every_n_requests p"
  by (simp add: prfh_insert_def Let_def)

lemma prfh_insert_hash:
  "prf_hash (prfh_insert pos p) tag \<noteq> None \<Longrightarrow>
     prf_hash p tag \<noteq> None \<or> tag = buftag (prf_buffer p pos)"
  by (auto simp: prfh_insert_def Let_def split: if_splits)

lemma count_copied_props:
  assumes "st \<noteq> PRFS_UNUSED" "ring_last new \<le> ring_receive new"
  shows "ring_last (count_copied st new) = ring_last new - 1
    \<and> ring_last (count_copied st new) \<le> ring_receive (count_copied st new)
    \<and> ring_receive (count_copied st new) \<le> ring_receive new
    \<and> ring_flush (count_copied st new) = ring_flush new
    \<and> ring_unused (count_copied st new) = ring_unused new
    \<and> prf_buffer (count_copied st new) = prf_buffer new
    \<and> prf_hash (count_copied st new) = prf_hash new
    \<and> ps_send (count_copied st new) = ps_send new
    \<and> flush_every_n_requests (count_copied st new) = flush_every_n_requests new"
  using assms by (cases st) (auto simp: count_copied_def Let_def)

lemma copy_slot_inv:
  assumes "copy_inv old newsize nfree new" "nfree \<noteq> 0" "nfree \<le> newsize"
    "status (GetPrfSlot old k) \<noteq> PRFS_UNUSED"
  shows "copy_inv old newsize (nfree - 1) (copy_slot (GetPrfSlot old k) (nfree - 1) new)"
proof -
  define slot where "slot = GetPrfSlot old k"
  define new0 where "new0 = set_slot (nfree - 1) (slot\<lparr>my_ring_index := nfree - 1\<rparr>) new"
  define new1 where "new1 = prfh_insert (nfree - 1) new0"
  have b1: "prf_buffer new1 = (prf_buffer new)(nfree - 1 := slot\<lparr>my_ring_index := nfree - 1\<rparr>)"
    by (simp add: new1_def new0_def prfh_insert_frame set_slot_def)
  have h1: "\<And>tag. prf_hash new1 tag \<noteq> None \<Longrightarrow> prf_hash new tag \<noteq> None \<or> tag = buftag slot"
    using prfh_insert_hash[of "nfree - 1" new0] by (auto simp: new1_def new0_def set_slot_def)
  have c1: "ring_last new1 = ring_last new" "ring_receive new1 = ring_receive new"
    "ring_flush new1 = ring_flush new" "ring_unused new1 = ring_unused new"
    "ps_send new1 = ps_send new" "flush_every_n_requests new1 = flush_every_n_requests new"
    by (simp_all add: new1_def new0_def prfh_insert_frame set_slot_def)
  have tagsrc: "\<exists>pos. buftag slot = buftag (prf_buffer old pos)"
    by (auto simp: slot_def GetPrfSlot_def)
  have st: "status slot \<noteq> PRFS_UNUSED" using assms(4) by (simp add: slot_def)
  from assms(1) c1 have le: "ring_last new1 \<le> ring_receive new1" by (simp add: copy_inv_def)
  have res: "copy_slot slot (nfree - 1) new = count_copied (status slot) new1"
    by (simp add: copy_slot_def new1_def new0_def)
  note cc = count_copied_props[OF st le]
  show ?thesis
    unfolding slot_def[symmetric] res copy_inv_def
  proof (intro conjI allI impI)
    show "ring_last (count_copied (status slot) new1) = nfree - 1"
      using cc c1 assms(1) by (simp add: copy_inv_def)
    show "nfree - 1 \<le> ring_receive (count_copied (status slot) new1)"
      using cc c1 assms(1) by (simp add: copy_inv_def)
    show "ring_receive (count_copied (status slot) new1) \<le> newsize"
      using cc c1 assms(1) by (simp add: copy_inv_def)
    show "ring_flush (count_copied (status slot) new1) = newsize"
      using cc c1 assms(1) by (simp add: copy_inv_def)
    show "ring_unused (count_copied (status slot) new1) = newsize"
      using cc c1 assms(1) by (simp add: copy_inv_def)
    show "ps_send (count_copied (status slot) new1) = ps_send old"
      using cc c1 assms(1) by (simp add: copy_inv_def)
    show "flush_every_n_requests (count_copied (status slot) new1) = flush_every_n_requests old"
      using cc c1 assms(1) by (simp add: copy_inv_def)
  next
    fix pos assume "nfree - 1 \<le> pos \<and> pos < newsize"
    then show "status (prf_buffer (count_copied (status slot) new1) pos) \<noteq> PRFS_UNUSED"
      using cc b1 st assms(1,2) by (cases "pos = nfree - 1") (auto simp: copy_inv_def)
  next
    fix tag assume "prf_hash (count_copied (status slot) new1) tag \<noteq> None"
    with cc have "prf_hash new1 tag \<noteq> None" by simp
    from h1[OF this] tagsrc assms(1) show "\<exists>pos. tag = buftag (prf_buffer old pos)"
      by (auto simp: copy_inv_def)
  qed
qed

lemma resize_copy_full:
  "copy_inv old newsize nfree new \<Longrightarrow> nfree \<le> newsize
     \<Longrightarrow> \<forall>k. ring_last old \<le> k \<and> k < e \<longrightarrow> status (GetPrfSlot old k) \<noteq> PRFS_UNUSED
     \<Longrightarrow> nfree \<le> e - ring_last old
     \<Longrightarrow> copy_inv old newsize 0 (resize_copy old e nfree new)"
proof (induction old e nfree new rule: resize_copy.induct)
  case (1 old e nfree new)
  show ?case
  proof (cases "e \<noteq> 0 \<and> e - 1 \<ge> ring_last old \<and> nfree \<noteq> 0")
    case False
    then have "resize_copy old e nfree new = new" by (subst resize_copy.simps) auto
    moreover from False 1(6) have "nfree = 0" by auto
    ultimately show ?thesis using 1(3) by simp
  next
    case True
    with 1(5) have u: "status (GetPrfSlot old (e - 1)) \<noteq> PRFS_UNUSED" by simp
    with True have eq: "resize_copy old e nfree new
        = resize_copy old (e - 1) (nfree - 1) (copy_slot (GetPrfSlot old (e - 1)) (nfree - 1) new)"
      by (subst resize_copy.simps) simp
    from True have nz: "nfree \<noteq> 0" by simp
    have ci: "copy_inv old newsize (nfree - 1) (copy_slot (GetPrfSlot old (e - 1)) (nfree - 1) new)"
      by (rule copy_slot_inv[OF 1(3) nz 1(4) u])
    from 1(4) have le: "nfree - 1 \<le> newsize" by simp
    from 1(5) have live: "\<forall>k. ring_last old \<le> k \<and> k < e - 1
        \<longrightarrow> status (GetPrfSlot old k) \<noteq> PRFS_UNUSED" by auto
    from 1(6) True have cnt: "nfree - 1 \<le> e - 1 - ring_last old" by simp
    from 1(2)[OF True u ci le live cnt] eq show ?thesis by simp
  qed
qed

lemma resize_full:
  assumes "window_live p" "newsize \<le> ring_unused p - ring_last p"
    "\<not> n_requests_inflight p > int newsize"
  shows "copy_inv p newsize 0 ((readahead_buffer_resize newsize p)\<lparr>readahead_buffer_size := readahead_buffer_size p\<rparr>)
       \<and> readahead_buffer_size (readahead_buffer_resize newsize p) = newsize"
proof -
  define new where "new = p\<lparr>ring_unused := newsize, ring_flush := newsize, ring_receive := newsize,
                   ring_last := newsize, n_responses_buffered := 0, n_requests_inflight := 0,
                   n_unused := int newsize, prf_hash := Map.empty,
                   prf_buffer := (\<lambda>pos. unused_slot)\<rparr>"
  have r: "readahead_buffer_resize newsize p
      = (resize_copy p (ring_unused p) newsize new)\<lparr>readahead_buffer_size := newsize\<rparr>"
    using assms(3) by (simp add: readahead_buffer_resize_def Let_def new_def)
  have i0: "copy_inv p newsize newsize new"
    by (auto simp: copy_inv_def new_def)
  from assms(1) have live: "\<forall>k. ring_last p \<le> k \<and> k < ring_unused p
      \<longrightarrow> status (GetPrfSlot p k) \<noteq> PRFS_UNUSED" by (simp add: window_live_def)
  from resize_copy_full[OF i0 _ live assms(2)]
  have "copy_inv p newsize 0 (resize_copy p (ring_unused p) newsize new)" by simp
  then show ?thesis by (simp add: r copy_inv_def)
qed


lemma ps_do_flush_frame:
  "ring_unused (snd (ps_do_flush p)) = ring_unused p \<and> ring_last (snd (ps_do_flush p)) = ring_last p
   \<and> ring_receive (snd (ps_do_flush p)) = ring_receive p
   \<and> readahead_buffer_size (snd (ps_do_flush p)) = readahead_buffer_size p
   \<and> prf_buffer (snd (ps_do_flush p)) = prf_buffer p \<and> prf_hash (snd (ps_do_flush p)) = prf_hash p"
  by (simp add: ps_do_flush_def split: list.splits)

lemma do_request_counters:
  assumes "first_accepted (ps_send p) = Some rest"
  shows "\<exists>p' w'. prefetch_do_request pos force_latest force_lsn p w = Some (p', w')
     \<and> ring_unused p' = ring_unused p + 1 \<and> ring_last p' = ring_last p
     \<and> ring_receive p' = ring_receive p \<and> ring_flush p' = ring_flush p
     \<and> readahead_buffer_size p' = readahead_buffer_size p
     \<and> flush_every_n_requests p' = flush_every_n_requests p
     \<and> status (prf_buffer p' pos) = PRFS_REQUESTED
     \<and> buftag (prf_buffer p' pos) = buftag (prf_buffer p pos)"
proof -
  obtain lt l w1 where g: "neon_get_request_lsn (rnode (buftag (prf_buffer p pos)))
      (forkNum (buftag (prf_buffer p pos))) (blockNum (buftag (prf_buffer p pos))) w = (lt, l, w1)"
    by (metis prod_cases3)
  show ?thesis
    using assms g
    by (cases force_lsn; cases force_latest)
       (simp_all add: prefetch_do_request_def Let_def send_until_accepted_def set_slot_def
          prfh_insert_def)
qed

lemma register_new_counters:
  assumes "first_accepted (ps_send p) = Some rest"
  shows "\<exists>p' w'. register_new tag force_latest force_lsn p w = Returns (ring_unused p) (p', w')
     \<and> ring_unused p' = ring_unused p + 1 \<and> ring_last p' = ring_last p
     \<and> ring_receive p' = ring_receive p
     \<and> readahead_buffer_size p' = readahead_buffer_size p
     \<and> status (prf_buffer p' (ring_unused p mod readahead_buffer_size p)) = PRFS_REQUESTED
     \<and> buftag (prf_buffer p' (ring_unused p mod readahead_buffer_size p)) = tag"
proof -
  define pos where "pos = ring_unused p mod readahead_buffer_size p"
  define p1 where "p1 = set_slot pos ((prf_buffer p pos)\<lparr>buftag := tag, my_ring_index := ring_unused p\<rparr>) p"
  have s1: "first_accepted (ps_send p1) = Some rest"
    using assms by (simp add: p1_def set_slot_def)
  from do_request_counters[OF s1, of pos force_latest force_lsn w]
  obtain p2 w2 where d: "prefetch_do_request pos force_latest force_lsn p1 w = Some (p2, w2)"
    "ring_unused p2 = ring_unused p1 + 1" "ring_last p2 = ring_last p1"
    "ring_receive p2 = ring_receive p1" "ring_flush p2 = ring_flush p1"
    "readahead_buffer_size p2 = readahead_buffer_size p1"
    "status (prf_buffer p2 pos) = PRFS_REQUESTED"
    "buftag (prf_buffer p2 pos) = buftag (prf_buffer p1 pos)"
    by blast
  have c1: "ring_unused p1 = ring_unused p" "ring_last p1 = ring_last p"
    "ring_receive p1 = ring_receive p" "readahead_buffer_size p1 = readahead_buffer_size p"
    "buftag (prf_buffer p1 pos) = tag"
    by (simp_all add: p1_def set_slot_def)
  show ?thesis
    using d c1 ps_do_flush_frame[of p2]
    by (simp add: register_new_def Let_def pos_def[symmetric] p1_def[symmetric])
qed

text \<open>A fresh tag registered on a ring whose window is exactly \<open>readahead_buffer_size\<close> long.\<close>

lemma register_on_full_ring:
  assumes "prf_hash p tag = None"
    and "ring_unused p = ring_last p + readahead_buffer_size p"
    and "first_accepted (ps_send p) = Some rest"
  shows "\<exists>p' w'. prefetch_register_buffer tag force_latest force_lsn p w
                    = Returns (ring_unused p) (p', w')
     \<and> ring_unused p' = ring_unused p + 1 \<and> ring_last p' = ring_last p
     \<and> readahead_buffer_size p' = readahead_buffer_size p
     \<and> status (prf_buffer p' (ring_unused p mod readahead_buffer_size p)) = PRFS_REQUESTED
     \<and> buftag (prf_buffer p' (ring_unused p mod readahead_buffer_size p)) = tag"
proof -
  have l: "register_lookup tag force_latest force_lsn p = (None, p)"
    using assms(1) by (simp add: register_lookup_def prfh_lookup_def)
  have m: "register_make_room p = Some p"
    using assms(2) by (simp add: register_make_room_def)
  have e: "prefetch_register_buffer tag force_latest force_lsn p w
      = register_new tag force_latest force_lsn p w"
    by (simp add: prefetch_register_buffer_def l m)
  from register_new_counters[OF assms(3), of tag force_latest force_lsn w]
  show ?thesis unfolding e by blast
qed


lemma busy_ring_window_live: "window_live busy_ring"
  by (simp add: window_live_def busy_ring_def GetPrfSlot_def GetPrfPos_def received_slot_def)

lemma sample_tag_fresh:
  assumes "pos < 20"
  shows "sample_tag 1000 \<noteq> sample_tag (of_nat pos)"
proof -
  from assms have "unat (of_nat pos :: 32 word) = pos" by (simp add: unat_of_nat)
  with assms have "(of_nat pos :: 32 word) \<noteq> 1000" by auto
  then show ?thesis by (simp add: sample_tag_def)
qed

lemma busy_ring_tags:
  "sample_tag 1000 \<noteq> buftag (prf_buffer busy_ring pos)"
  using sample_tag_fresh[of pos]
  by (simp add: busy_ring_def received_slot_def unused_slot_def zero_tag_def)
     (simp add: sample_tag_def)

text \<open>
  C8 fails on the code.  \<open>busy_ring\<close> has 128 slots, 20 of them holding responses.
  \<open>readahead_buffer_resize 16\<close> packs the 16 newest into the new ring: \<open>ring_last = 0\<close>,
  \<open>ring_unused = 16\<close>, every slot used; the counter invariant holds, with the window
  exactly \<open>readahead_buffer_size\<close> long.  Registering block 1000 then finds
  \<open>ring_last + readahead_buffer_size - 1 \<noteq> ring_unused\<close>, makes no room, takes the slot at
  \<open>ring_unused % readahead_buffer_size = 0\<close>, which is in use, and advances
  \<open>ring_unused\<close> to 17: the window is longer than the ring and the invariant is broken.
\<close>

theorem register_after_resize_breaks_counter_invariant:
  "counter_invariant (readahead_buffer_resize 16 busy_ring)
   \<and> readahead_buffer_size (readahead_buffer_resize 16 busy_ring) = 16
   \<and> ring_last (readahead_buffer_resize 16 busy_ring) = 0
   \<and> ring_unused (readahead_buffer_resize 16 busy_ring) = 16
   \<and> status (GetPrfSlot (readahead_buffer_resize 16 busy_ring) 16) \<noteq> PRFS_UNUSED
   \<and> (case prefetch_register_buffer (sample_tag 1000) None None
              (readahead_buffer_resize 16 busy_ring) sample_world of
         Returns ring_index (p, w) \<Rightarrow>
           ring_index = 16 \<and> ring_last p = 0 \<and> ring_unused p = 17
           \<and> readahead_buffer_size p = 16 \<and> buftag (GetPrfSlot p 16) = sample_tag 1000
           \<and> \<not> counter_invariant p
       | Raises e s \<Rightarrow> False
       | Diverges \<Rightarrow> False)"
proof -
  define q where "q = readahead_buffer_resize 16 busy_ring"
  have h: "16 \<le> ring_unused busy_ring - ring_last busy_ring"
    "\<not> n_requests_inflight busy_ring > int 16"
    by (simp_all add: busy_ring_def)
  from resize_full[OF busy_ring_window_live h]
  have ci: "copy_inv busy_ring 16 0 (q\<lparr>readahead_buffer_size := readahead_buffer_size busy_ring\<rparr>)"
    and cap: "readahead_buffer_size q = 16"
    by (simp_all add: q_def)
  from ci have c: "ring_last q = 0" "ring_receive q \<le> 16" "ring_flush q = 16" "ring_unused q = 16"
    "status (prf_buffer q 0) \<noteq> PRFS_UNUSED" "ps_send q = [True]"
    by (simp_all add: copy_inv_def busy_ring_def)
  have fresh: "prf_hash q (sample_tag 1000) = None"
  proof (rule ccontr)
    assume "prf_hash q (sample_tag 1000) \<noteq> None"
    with ci obtain pos where "sample_tag 1000 = buftag (prf_buffer busy_ring pos)"
      by (auto simp: copy_inv_def)
    with busy_ring_tags[of pos] show False by simp
  qed
  have inv: "counter_invariant q" using c cap by (simp add: counter_invariant_def)
  have slot: "status (GetPrfSlot q 16) \<noteq> PRFS_UNUSED"
    using c cap by (simp add: GetPrfSlot_def GetPrfPos_def)
  have full: "ring_unused q = ring_last q + readahead_buffer_size q" using c cap by simp
  have acc: "first_accepted (ps_send q) = Some []" using c by simp
  from register_on_full_ring[OF fresh full acc, of None None sample_world]
  obtain p w where r: "prefetch_register_buffer (sample_tag 1000) None None q sample_world
      = Returns (ring_unused q) (p, w)"
    "ring_unused p = ring_unused q + 1" "ring_last p = ring_last q"
    "readahead_buffer_size p = readahead_buffer_size q"
    "buftag (prf_buffer p (ring_unused q mod readahead_buffer_size q)) = sample_tag 1000"
    by blast
  from r c cap have "\<not> counter_invariant p" by (simp add: counter_invariant_def)
  with r c cap inv slot show ?thesis
    by (simp add: q_def[symmetric] GetPrfSlot_def GetPrfPos_def)
qed

subsection \<open>Reading at an LSN\<close>











subsection \<open>Redo read-buffer filter\<close>

lemma calls_update_cached: "calls (update_cached_relsize rn fk sz w) = calls w"
  by (simp add: update_cached_relsize_def set_cached_relsize_def split: option.splits)

lemma calls_set_cached: "calls (set_cached_relsize rn fk sz w) = calls w"
  by (simp add: set_cached_relsize_def)

lemma filter_main:
  assumes "\<not> old_filter_skips w record block_id"
    and "block_tags record block_id = Some (rn, forknum, blkno)"
    and "OidIsValid (dbNode rn)"
    and "neon_redo_read_buffer_filter record block_id p w = Returns b (p', w')"
  shows "b = (BufTableLookup w \<lparr>rnode = rn, forkNum = forknum, blockNum = blkno\<rparr> < 0)
       \<and> calls w' = calls w @ locked_calls (EndRecPtr record) rn forknum blkno b
                      @ relation_calls w (EndRecPtr record) rn forknum blkno"
  using assms
  by (auto simp: neon_redo_read_buffer_filter_def old_filter_skips_def Let_def do_call_def
      locked_calls_def get_cached_relsize_def calls_update_cached calls_set_cached relation_calls_def
      split: option.splits if_splits prod.splits)

lemma filter_early:
  "old_filter_skips w record block_id \<Longrightarrow>
     neon_redo_read_buffer_filter record block_id p w = Returns True (p, w)"
  "\<not> old_filter_skips w record block_id \<Longrightarrow> block_tags record block_id = Some (rn, forknum, blkno)
     \<Longrightarrow> \<not> OidIsValid (dbNode rn)
     \<Longrightarrow> neon_redo_read_buffer_filter record block_id p w = Returns False (p, w)"
  by (simp_all add: neon_redo_read_buffer_filter_def old_filter_skips_def Let_def)

lemma filter_never_raises:
  "block_tags record block_id = Some x \<Longrightarrow>
     neon_redo_read_buffer_filter record block_id p w \<noteq> Raises e s"
  by (cases x)
     (auto simp: neon_redo_read_buffer_filter_def Let_def split: option.splits if_splits prod.splits)

lemma filter_returns_when_cached:
  "block_tags record block_id = Some (rn, forknum, blkno) \<Longrightarrow>
   get_cached_relsize rn forknum w \<noteq> None \<Longrightarrow>
     \<exists>b w'. neon_redo_read_buffer_filter record block_id p w = Returns b (p, w')"
  by (auto simp: neon_redo_read_buffer_filter_def Let_def get_cached_relsize_def do_call_def
      split: option.splits if_splits prod.splits)

lemma sample_filter_returns:
  "\<exists>w'. neon_redo_read_buffer_filter sample_record 0 inflight_ring cached_world
            = Returns True (inflight_ring, w')"
  by (simp add: neon_redo_read_buffer_filter_def sample_record_def cached_world_def sample_world_def
      Let_def do_call_def get_cached_relsize_def OidIsValid_def InvalidOid_def)

lemma buffered_filter_returns:
  "\<exists>w'. neon_redo_read_buffer_filter sample_record 0 inflight_ring buffered_world
            = Returns False (inflight_ring, w')"
  by (simp add: neon_redo_read_buffer_filter_def sample_record_def cached_world_def sample_world_def
      buffered_world_def Let_def do_call_def get_cached_relsize_def OidIsValid_def InvalidOid_def)

lemma error_reply_filter_returns:
  "\<exists>p' w'. neon_redo_read_buffer_filter sample_record 0 error_reply_ring sample_world
            = Returns True (p', w')"
  by (simp add: neon_redo_read_buffer_filter_def sample_record_def sample_world_def
      error_reply_ring_def neon_init_def page_server_request.simps send_and_flush.simps
      ps_do_send_def ps_do_flush_def ps_do_receive_def consume_prefetch_responses_def
      Let_def do_call_def get_cached_relsize_def OidIsValid_def InvalidOid_def)

text \<open>
  C2, as the code has it.  The filter has two early returns that publish nothing: when an
  earlier filter is chained and asks to skip it returns true at once, and when the block's
  database id is invalid it returns false at once; in both the world is left as it was.
  Past them, whenever the filter returns (true or false) the calls it has made are, in
  order: \<open>LWLockAcquire\<close> of the partition lock, \<open>SetLastWrittenLSNForBlock\<close> with the
  record's \<open>EndRecPtr\<close> for the block, \<open>lfc_evict\<close> if the block is not in shared
  buffers, \<open>LWLockRelease\<close>, and then \<open>SetLastWrittenLSNForRelation\<close> unless the cached
  relation size already covers the block.  With the block located the filter never
  raises, whatever the page server answers to the size request; it returns whenever the
  relation size is cached (otherwise it returns once the page server has answered).
\<close>

theorem redo_filter_publishes_under_lock:
  "(old_filter_skips w record block_id \<longrightarrow>
      neon_redo_read_buffer_filter record block_id p w = Returns True (p, w))
   \<and> (\<not> old_filter_skips w record block_id
        \<and> block_tags record block_id = Some (rn, forknum, blkno) \<and> \<not> OidIsValid (dbNode rn) \<longrightarrow>
      neon_redo_read_buffer_filter record block_id p w = Returns False (p, w))
   \<and> (\<not> old_filter_skips w record block_id
        \<and> block_tags record block_id = Some (rn, forknum, blkno) \<and> OidIsValid (dbNode rn)
        \<and> neon_redo_read_buffer_filter record block_id p w = Returns b (p', w') \<longrightarrow>
      calls w' = calls w @ locked_calls (EndRecPtr record) rn forknum blkno b
                   @ relation_calls w (EndRecPtr record) rn forknum blkno)
   \<and> (block_tags record block_id = Some (rn, forknum, blkno) \<longrightarrow>
        (\<forall>e s. neon_redo_read_buffer_filter record block_id p w \<noteq> Raises e s))
   \<and> (block_tags record block_id = Some (rn, forknum, blkno)
        \<and> get_cached_relsize rn forknum w \<noteq> None \<longrightarrow>
        (\<exists>b w'. neon_redo_read_buffer_filter record block_id p w = Returns b (p, w')))"
proof -
  have early1: "neon_redo_read_buffer_filter record block_id p w = Returns True (p, w)"
    if "old_filter_skips w record block_id"
    using that by (rule filter_early(1))
  have early2: "neon_redo_read_buffer_filter record block_id p w = Returns False (p, w)"
    if "\<not> old_filter_skips w record block_id
        \<and> block_tags record block_id = Some (rn, forknum, blkno) \<and> \<not> OidIsValid (dbNode rn)"
    using that by (simp add: filter_early(2))
  have main: "calls w' = calls w @ locked_calls (EndRecPtr record) rn forknum blkno b
                   @ relation_calls w (EndRecPtr record) rn forknum blkno"
    if "\<not> old_filter_skips w record block_id
        \<and> block_tags record block_id = Some (rn, forknum, blkno) \<and> OidIsValid (dbNode rn)
        \<and> neon_redo_read_buffer_filter record block_id p w = Returns b (p', w')"
    using filter_main[of w "record" block_id rn forknum blkno p b p' w'] that by blast
  have nr: "\<forall>e s. neon_redo_read_buffer_filter record block_id p w \<noteq> Raises e s"
    if "block_tags record block_id = Some (rn, forknum, blkno)"
    using that by (simp add: filter_never_raises)
  have rc: "\<exists>b w'. neon_redo_read_buffer_filter record block_id p w = Returns b (p, w')"
    if "block_tags record block_id = Some (rn, forknum, blkno)
        \<and> get_cached_relsize rn forknum w \<noteq> None"
    using that filter_returns_when_cached[of "record" block_id rn forknum blkno w p] by blast
  from early1 early2 main nr rc show ?thesis by blast
qed

theorem redo_filter_publishes_under_lock_witness:
  "(\<exists>w'. neon_redo_read_buffer_filter sample_record 0 inflight_ring cached_world
            = Returns True (inflight_ring, w')
        \<and> calls w' =
            [Call_LWLockAcquire \<lparr>rnode = \<lparr>spcNode = 1663, dbNode = 12345, relNode = 16384\<rparr>,
                                 forkNum = MAIN_FORKNUM, blockNum = 42\<rparr>,
             Call_SetLastWrittenLSNForBlock 5000 \<lparr>spcNode = 1663, dbNode = 12345, relNode = 16384\<rparr>
               MAIN_FORKNUM 42,
             Call_lfc_evict \<lparr>spcNode = 1663, dbNode = 12345, relNode = 16384\<rparr> MAIN_FORKNUM 42,
             Call_LWLockRelease \<lparr>rnode = \<lparr>spcNode = 1663, dbNode = 12345, relNode = 16384\<rparr>,
                                 forkNum = MAIN_FORKNUM, blockNum = 42\<rparr>])
   \<and> (\<exists>p' w'. neon_redo_read_buffer_filter sample_record 0 error_reply_ring sample_world
            = Returns True (p', w')
        \<and> calls w' =
            [Call_LWLockAcquire \<lparr>rnode = \<lparr>spcNode = 1663, dbNode = 12345, relNode = 16384\<rparr>,
                                 forkNum = MAIN_FORKNUM, blockNum = 42\<rparr>,
             Call_SetLastWrittenLSNForBlock 5000 \<lparr>spcNode = 1663, dbNode = 12345, relNode = 16384\<rparr>
               MAIN_FORKNUM 42,
             Call_lfc_evict \<lparr>spcNode = 1663, dbNode = 12345, relNode = 16384\<rparr> MAIN_FORKNUM 42,
             Call_LWLockRelease \<lparr>rnode = \<lparr>spcNode = 1663, dbNode = 12345, relNode = 16384\<rparr>,
                                 forkNum = MAIN_FORKNUM, blockNum = 42\<rparr>,
             Call_SetLastWrittenLSNForRelation 5000
               \<lparr>spcNode = 1663, dbNode = 12345, relNode = 16384\<rparr> MAIN_FORKNUM])
   \<and> neon_redo_read_buffer_filter sample_record 0 inflight_ring chained_world
       = Returns True (inflight_ring, chained_world)
   \<and> neon_redo_read_buffer_filter shared_record 0 inflight_ring cached_world
       = Returns False (inflight_ring, cached_world)"
proof -
  from sample_filter_returns obtain w1 where
    r1: "neon_redo_read_buffer_filter sample_record 0 inflight_ring cached_world
           = Returns True (inflight_ring, w1)" by blast
  from error_reply_filter_returns obtain p2 w2 where
    r2: "neon_redo_read_buffer_filter sample_record 0 error_reply_ring sample_world
           = Returns True (p2, w2)" by blast
  have facts:
    "\<not> old_filter_skips cached_world sample_record 0"
    "\<not> old_filter_skips sample_world sample_record 0"
    "old_filter_skips chained_world sample_record 0"
    "block_tags sample_record 0
       = Some (\<lparr>spcNode = 1663, dbNode = 12345, relNode = 16384\<rparr>, MAIN_FORKNUM, 42)"
    "block_tags shared_record 0
       = Some (\<lparr>spcNode = 1664, dbNode = 0, relNode = 1262\<rparr>, MAIN_FORKNUM, 42)"
    "OidIsValid (dbNode \<lparr>spcNode = 1663, dbNode = 12345, relNode = 16384\<rparr>)"
    "\<not> OidIsValid (dbNode \<lparr>spcNode = 1664, dbNode = 0, relNode = 1262\<rparr>)"
    by (simp_all add: old_filter_skips_def chained_world_def cached_world_def sample_world_def
          sample_record_def shared_record_def OidIsValid_def InvalidOid_def)
  have c1: "calls w1 = calls cached_world
      @ locked_calls 5000 \<lparr>spcNode = 1663, dbNode = 12345, relNode = 16384\<rparr> MAIN_FORKNUM 42 True
      @ relation_calls cached_world 5000 \<lparr>spcNode = 1663, dbNode = 12345, relNode = 16384\<rparr>
          MAIN_FORKNUM 42"
    using redo_filter_publishes_under_lock
            [of cached_world sample_record 0 inflight_ring
                "\<lparr>spcNode = 1663, dbNode = 12345, relNode = 16384\<rparr>" MAIN_FORKNUM 42 True
                inflight_ring w1] facts r1
    by (simp add: sample_record_def)
  have c2: "calls w2 = calls sample_world
      @ locked_calls 5000 \<lparr>spcNode = 1663, dbNode = 12345, relNode = 16384\<rparr> MAIN_FORKNUM 42 True
      @ relation_calls sample_world 5000 \<lparr>spcNode = 1663, dbNode = 12345, relNode = 16384\<rparr>
          MAIN_FORKNUM 42"
    using redo_filter_publishes_under_lock
            [of sample_world sample_record 0 error_reply_ring
                "\<lparr>spcNode = 1663, dbNode = 12345, relNode = 16384\<rparr>" MAIN_FORKNUM 42 True
                p2 w2] facts r2
    by (simp add: sample_record_def)
  have c3: "neon_redo_read_buffer_filter sample_record 0 inflight_ring chained_world
       = Returns True (inflight_ring, chained_world)"
    using redo_filter_publishes_under_lock[of chained_world sample_record 0 inflight_ring] facts
    by simp
  have c4: "neon_redo_read_buffer_filter shared_record 0 inflight_ring cached_world
       = Returns False (inflight_ring, cached_world)"
    using redo_filter_publishes_under_lock
            [of cached_world shared_record 0 inflight_ring
                "\<lparr>spcNode = 1664, dbNode = 0, relNode = 1262\<rparr>" MAIN_FORKNUM 42] facts
    by (simp add: old_filter_skips_def cached_world_def sample_world_def)
  from c1 have c1': "calls w1 =
            [Call_LWLockAcquire \<lparr>rnode = \<lparr>spcNode = 1663, dbNode = 12345, relNode = 16384\<rparr>,
                                 forkNum = MAIN_FORKNUM, blockNum = 42\<rparr>,
             Call_SetLastWrittenLSNForBlock 5000 \<lparr>spcNode = 1663, dbNode = 12345, relNode = 16384\<rparr>
               MAIN_FORKNUM 42,
             Call_lfc_evict \<lparr>spcNode = 1663, dbNode = 12345, relNode = 16384\<rparr> MAIN_FORKNUM 42,
             Call_LWLockRelease \<lparr>rnode = \<lparr>spcNode = 1663, dbNode = 12345, relNode = 16384\<rparr>,
                                 forkNum = MAIN_FORKNUM, blockNum = 42\<rparr>]"
    by (simp add: locked_calls_def relation_calls_def get_cached_relsize_def cached_world_def
          sample_world_def)
  from c2 have c2': "calls w2 =
            [Call_LWLockAcquire \<lparr>rnode = \<lparr>spcNode = 1663, dbNode = 12345, relNode = 16384\<rparr>,
                                 forkNum = MAIN_FORKNUM, blockNum = 42\<rparr>,
             Call_SetLastWrittenLSNForBlock 5000 \<lparr>spcNode = 1663, dbNode = 12345, relNode = 16384\<rparr>
               MAIN_FORKNUM 42,
             Call_lfc_evict \<lparr>spcNode = 1663, dbNode = 12345, relNode = 16384\<rparr> MAIN_FORKNUM 42,
             Call_LWLockRelease \<lparr>rnode = \<lparr>spcNode = 1663, dbNode = 12345, relNode = 16384\<rparr>,
                                 forkNum = MAIN_FORKNUM, blockNum = 42\<rparr>,
             Call_SetLastWrittenLSNForRelation 5000
               \<lparr>spcNode = 1663, dbNode = 12345, relNode = 16384\<rparr> MAIN_FORKNUM]"
    by (simp add: locked_calls_def relation_calls_def get_cached_relsize_def sample_world_def)
  from r1 c1' r2 c2' c3 c4 show ?thesis by blast
qed

text \<open>
  C2 as stated fails.  For a block of a shared catalog (database id zero) the filter
  returns false and has called nothing: the list of calls is still empty, so no
  \<open>SetLastWrittenLSNForBlock\<close> has happened.
\<close>

theorem redo_filter_publishes_counterexample:
  "neon_redo_read_buffer_filter shared_record 0 inflight_ring cached_world
     = Returns False (inflight_ring, cached_world)
   \<and> calls cached_world = []"
  by (simp add: neon_redo_read_buffer_filter_def shared_record_def cached_world_def sample_world_def
        Let_def OidIsValid_def InvalidOid_def)

text \<open>
  C4, as the code has it.  When no earlier filter asks to skip: the filter returns true
  exactly when the block's database id is valid and the block is not in shared buffers
  (\<open>BufTableLookup\<close> is negative); with an invalid database id it returns false at once;
  and it has called \<open>lfc_evict\<close> for the block exactly when it returns true.  When an
  earlier filter is chained and asks to skip, the filter returns true at once, whatever
  the database id, and calls nothing.
\<close>

theorem redo_filter_result:
  "(\<not> old_filter_skips w record block_id
      \<and> block_tags record block_id = Some (rn, forknum, blkno)
      \<and> neon_redo_read_buffer_filter record block_id p w = Returns b (p', w') \<longrightarrow>
        (b \<longleftrightarrow> OidIsValid (dbNode rn)
               \<and> BufTableLookup w \<lparr>rnode = rn, forkNum = forknum, blockNum = blkno\<rparr> < 0)
        \<and> (b \<longleftrightarrow> Call_lfc_evict rn forknum blkno \<in> set (calls_since w w')))
   \<and> (\<not> old_filter_skips w record block_id
        \<and> block_tags record block_id = Some (rn, forknum, blkno) \<and> \<not> OidIsValid (dbNode rn) \<longrightarrow>
        neon_redo_read_buffer_filter record block_id p w = Returns False (p, w))
   \<and> (old_filter_skips w record block_id \<longrightarrow>
        neon_redo_read_buffer_filter record block_id p w = Returns True (p, w))"
proof -
  have main: "(b \<longleftrightarrow> OidIsValid (dbNode rn)
               \<and> BufTableLookup w \<lparr>rnode = rn, forkNum = forknum, blockNum = blkno\<rparr> < 0)
        \<and> (b \<longleftrightarrow> Call_lfc_evict rn forknum blkno \<in> set (calls_since w w'))"
    if a: "\<not> old_filter_skips w record block_id
      \<and> block_tags record block_id = Some (rn, forknum, blkno)
      \<and> neon_redo_read_buffer_filter record block_id p w = Returns b (p', w')"
  proof (cases "OidIsValid (dbNode rn)")
    case True
    from filter_main[of w "record" block_id rn forknum blkno p b p' w'] a True
    have r: "b = (BufTableLookup w \<lparr>rnode = rn, forkNum = forknum, blockNum = blkno\<rparr> < 0)"
      "calls w' = calls w @ locked_calls (EndRecPtr record) rn forknum blkno b
                    @ relation_calls w (EndRecPtr record) rn forknum blkno"
      by blast+
    from r(2) have "calls_since w w' = locked_calls (EndRecPtr record) rn forknum blkno b
                    @ relation_calls w (EndRecPtr record) rn forknum blkno"
      by (simp add: calls_since_def)
    with r(1) True show ?thesis
      by (auto simp: locked_calls_def relation_calls_def split: option.splits if_splits)
  next
    case False
    with a filter_early(2)[of w "record" block_id rn forknum blkno p]
    have "b = False" "w' = w" by simp_all
    with False show ?thesis by (simp add: calls_since_def)
  qed
  have invalid: "neon_redo_read_buffer_filter record block_id p w = Returns False (p, w)"
    if "\<not> old_filter_skips w record block_id
        \<and> block_tags record block_id = Some (rn, forknum, blkno) \<and> \<not> OidIsValid (dbNode rn)"
    using that by (simp add: filter_early(2))
  have chained: "neon_redo_read_buffer_filter record block_id p w = Returns True (p, w)"
    if "old_filter_skips w record block_id"
    using that by (rule filter_early(1))
  from main invalid chained show ?thesis by blast
qed

theorem redo_filter_result_witness:
  "(\<exists>w'. neon_redo_read_buffer_filter sample_record 0 inflight_ring cached_world
            = Returns True (inflight_ring, w')
        \<and> Call_lfc_evict \<lparr>spcNode = 1663, dbNode = 12345, relNode = 16384\<rparr> MAIN_FORKNUM 42
            \<in> set (calls_since cached_world w'))
   \<and> BufTableLookup cached_world
        \<lparr>rnode = \<lparr>spcNode = 1663, dbNode = 12345, relNode = 16384\<rparr>, forkNum = MAIN_FORKNUM,
           blockNum = 42\<rparr> < 0
   \<and> (\<exists>w'. neon_redo_read_buffer_filter sample_record 0 inflight_ring buffered_world
            = Returns False (inflight_ring, w')
        \<and> Call_lfc_evict \<lparr>spcNode = 1663, dbNode = 12345, relNode = 16384\<rparr> MAIN_FORKNUM 42
            \<notin> set (calls_since buffered_world w'))
   \<and> BufTableLookup buffered_world
        \<lparr>rnode = \<lparr>spcNode = 1663, dbNode = 12345, relNode = 16384\<rparr>, forkNum = MAIN_FORKNUM,
           blockNum = 42\<rparr> = 5"
proof -
  from sample_filter_returns obtain w1 where
    r1: "neon_redo_read_buffer_filter sample_record 0 inflight_ring cached_world
           = Returns True (inflight_ring, w1)" by blast
  from buffered_filter_returns obtain w2 where
    r2: "neon_redo_read_buffer_filter sample_record 0 inflight_ring buffered_world
           = Returns False (inflight_ring, w2)" by blast
  have facts:
    "\<not> old_filter_skips cached_world sample_record 0"
    "\<not> old_filter_skips buffered_world sample_record 0"
    "block_tags sample_record 0
       = Some (\<lparr>spcNode = 1663, dbNode = 12345, relNode = 16384\<rparr>, MAIN_FORKNUM, 42)"
    by (simp_all add: old_filter_skips_def buffered_world_def cached_world_def sample_world_def
          sample_record_def)
  have c1: "Call_lfc_evict \<lparr>spcNode = 1663, dbNode = 12345, relNode = 16384\<rparr> MAIN_FORKNUM 42
            \<in> set (calls_since cached_world w1)"
    "BufTableLookup cached_world
        \<lparr>rnode = \<lparr>spcNode = 1663, dbNode = 12345, relNode = 16384\<rparr>, forkNum = MAIN_FORKNUM,
           blockNum = 42\<rparr> < 0"
    using redo_filter_result
            [of cached_world sample_record 0
                "\<lparr>spcNode = 1663, dbNode = 12345, relNode = 16384\<rparr>" MAIN_FORKNUM 42 inflight_ring
                True inflight_ring w1] facts r1
    by simp_all
  have c2: "Call_lfc_evict \<lparr>spcNode = 1663, dbNode = 12345, relNode = 16384\<rparr> MAIN_FORKNUM 42
            \<notin> set (calls_since buffered_world w2)"
    using redo_filter_result
            [of buffered_world sample_record 0
                "\<lparr>spcNode = 1663, dbNode = 12345, relNode = 16384\<rparr>" MAIN_FORKNUM 42 inflight_ring
                False inflight_ring w2] facts r2
    by simp
  have c3: "BufTableLookup buffered_world
        \<lparr>rnode = \<lparr>spcNode = 1663, dbNode = 12345, relNode = 16384\<rparr>, forkNum = MAIN_FORKNUM,
           blockNum = 42\<rparr> = 5"
    by (simp add: buffered_world_def)
  from r1 c1 r2 c2 c3 show ?thesis by blast
qed

text \<open>
  C4 as stated fails.  With an earlier filter chained that skips the block, the filter
  returns true for a block of a shared catalog (database id zero), and it returns true
  without having called \<open>lfc_evict\<close>: nothing has been called at all.
\<close>

theorem redo_filter_result_counterexample:
  "neon_redo_read_buffer_filter shared_record 0 inflight_ring chained_world
     = Returns True (inflight_ring, chained_world)
   \<and> calls chained_world = []
   \<and> block_tags shared_record 0 = Some (\<lparr>spcNode = 1664, dbNode = 0, relNode = 1262\<rparr>, MAIN_FORKNUM, 42)
   \<and> \<not> OidIsValid 0"
  by (simp add: neon_redo_read_buffer_filter_def shared_record_def chained_world_def
        cached_world_def sample_world_def Let_def OidIsValid_def InvalidOid_def)

subsection \<open>Relation extension\<close>

lemma same_environment_refl: "same_environment w w"
  by (simp add: same_environment_def)

lemma same_environment_fields:
  assumes "same_environment w w'"
  shows "ShutdownRequestPending w' = ShutdownRequestPending w"
    "XLogInsertAllowed w' = XLogInsertAllowed w"
    "RecoveryInProgress w' = RecoveryInProgress w"
    "PageGetLSN w' = PageGetLSN w"
    "log_newpage w' = log_newpage w"
    "GetXLogInsertRecPtr w' = GetXLogInsertRecPtr w"
proof -
  note e = assms[unfolded same_environment_def environment_def]
  show "ShutdownRequestPending w' = ShutdownRequestPending w"
    using arg_cong[OF e, of ShutdownRequestPending] by simp
  show "XLogInsertAllowed w' = XLogInsertAllowed w"
    using arg_cong[OF e, of XLogInsertAllowed] by simp
  show "RecoveryInProgress w' = RecoveryInProgress w"
    using arg_cong[OF e, of RecoveryInProgress] by simp
  show "PageGetLSN w' = PageGetLSN w"
    using arg_cong[OF e, of PageGetLSN] by simp
  show "log_newpage w' = log_newpage w"
    using arg_cong[OF e, of log_newpage] by simp
  show "GetXLogInsertRecPtr w' = GetXLogInsertRecPtr w"
    using arg_cong[OF e, of GetXLogInsertRecPtr] by simp
qed

lemma same_environment_trans:
  "same_environment w w1 \<Longrightarrow> same_environment w1 w2 \<Longrightarrow> same_environment w w2"
  by (simp add: same_environment_def)

lemma wallog_calls_env:
  "same_environment w w' \<Longrightarrow> wallog_calls w' = wallog_calls w"
  by (intro ext) (simp add: wallog_calls_def forced_log_calls_def same_environment_fields)

lemma wallog_page_returns:
  assumes "neon_wallog_page reln fk blk pg force w = Returns u w'"
  shows "calls w' = calls w @ wallog_calls w (smgr_rnode reln) fk blk pg force"
    and "same_environment w w'"
    and "relsize_cache w' = relsize_cache w"
  using assms
  by (auto simp: neon_wallog_page_def wallog_calls_def forced_log_calls_def Let_def
      log_newpage_copy_def XLogFlush_def do_call_def same_environment_def environment_def
      split: if_splits)

lemma gap_blocks_step:
  assumes "n < blkno"
  shows "gap_blocks n blkno = n # gap_blocks (n + 1) blkno"
proof -
  from assms have lt: "unat n < unat blkno" by (simp add: word_less_nat_alt)
  then have "[unat n ..< unat blkno] = unat n # [Suc (unat n) ..< unat blkno]"
    by (rule upt_conv_Cons)
  then show ?thesis by (simp add: gap_blocks_def word_less_succ[OF assms])
qed

lemma gap_blocks_done: "\<not> n < blkno \<Longrightarrow> gap_blocks n blkno = []"
  by (simp add: gap_blocks_def word_less_nat_alt)

lemma wallog_gap_returns:
  "wallog_gap reln fk n blkno pg w = Returns u w' \<Longrightarrow>
     calls w' = calls w @ concat (map (\<lambda>b. wallog_calls w (smgr_rnode reln) fk b pg True) (gap_blocks n blkno))
     \<and> same_environment w w' \<and> relsize_cache w' = relsize_cache w"
proof (induction reln fk n blkno pg w rule: wallog_gap.induct)
  case (1 reln fk n blkno pg w)
  show ?case
  proof (cases "n < blkno")
    case False
    with 1(2) show ?thesis
      by (subst (asm) wallog_gap.simps) (simp add: gap_blocks_done same_environment_refl)
  next
    case True
    from 1(2) True obtain u1 w1 where
      a: "neon_wallog_page reln fk n pg True w = Returns u1 w1"
      and b: "wallog_gap reln fk (n + 1) blkno pg w1 = Returns u w'"
      by (subst (asm) wallog_gap.simps) (auto split: outcome.splits)
    note pa = wallog_page_returns[OF a]
    from 1(1)[OF True a b] have ih:
      "calls w' = calls w1 @ concat (map (\<lambda>b. wallog_calls w1 (smgr_rnode reln) fk b pg True) (gap_blocks (n + 1) blkno))"
      "same_environment w1 w'" "relsize_cache w' = relsize_cache w1"
      by simp_all
    from pa(2) have "wallog_calls w1 = wallog_calls w" by (rule wallog_calls_env)
    with ih(1) pa(1) have "calls w' = calls w @ concat (map (\<lambda>b. wallog_calls w (smgr_rnode reln) fk b pg True) (gap_blocks n blkno))"
      by (simp add: gap_blocks_step[OF True])
    moreover from pa(2) ih(2) have "same_environment w w'" by (rule same_environment_trans)
    moreover from pa(3) ih(3) have "relsize_cache w' = relsize_cache w" by simp
    ultimately show ?thesis by simp
  qed
qed

lemma neon_nblocks_env:
  "neon_nblocks reln fk p w = Returns n (p1, w1) \<Longrightarrow> same_environment w w1"
  by (auto simp: neon_nblocks_def neon_get_request_lsn_def Let_def XLogFlush_def do_call_def
      update_cached_relsize_def set_cached_relsize_def same_environment_def environment_def
      get_cached_relsize_def
      split: relpersistence.splits option.splits if_splits prod.splits NeonMessage.splits)

lemma extend_calls:
  assumes perm: "smgr_relpersistence reln = RELPERSISTENCE_PERMANENT"
    and nb: "neon_nblocks reln forknum p w = Returns n_blocks (p1, w1)"
    and ret: "neon_extend reln forknum blkno buffer p w = Returns u (p', w')"
  shows "get_cached_relsize (smgr_rnode reln) forknum w' = Some (blkno + 1)"
    and "calls w' = calls w1
           @ concat (map (\<lambda>b. wallog_calls w (smgr_rnode reln) forknum b buffer True)
                         (gap_blocks n_blocks blkno))
           @ wallog_calls w (smgr_rnode reln) forknum blkno buffer False
           @ [Call_lfc_write (smgr_rnode reln) forknum blkno buffer]
           @ publish_calls w (smgr_rnode reln) forknum blkno buffer"
proof -
  from perm nb ret obtain u2 w2 u3 w3 where
    g: "wallog_gap reln forknum n_blocks blkno buffer w1 = Returns u2 w2"
    and x: "neon_wallog_page reln forknum blkno buffer False w2 = Returns u3 w3"
    by (auto simp: neon_extend_def split: if_splits outcome.splits)
  from perm nb ret g x have fin:
    "w' = (let w4 = set_cached_relsize (smgr_rnode reln) forknum (blkno + 1) w3;
               w5 = do_call (Call_lfc_write (smgr_rnode reln) forknum blkno buffer) w4
           in if PageGetLSN w4 buffer = InvalidXLogRecPtr
              then do_call (Call_SetLastWrittenLSNForRelation (GetXLogInsertRecPtr w5)
                              (smgr_rnode reln) forknum)
                     (do_call (Call_SetLastWrittenLSNForBlock (GetXLogInsertRecPtr w5)
                                 (smgr_rnode reln) forknum blkno) w5)
              else do_call (Call_SetLastWrittenLSNForRelation (PageGetLSN w4 buffer)
                              (smgr_rnode reln) forknum) w5)"
    by (auto simp: neon_extend_def Let_def split: if_splits)
  have e1: "same_environment w w1" using nb by (rule neon_nblocks_env)
  from wallog_gap_returns[OF g] have
    gc: "calls w2 = calls w1 @ concat (map (\<lambda>b. wallog_calls w1 (smgr_rnode reln) forknum b buffer True)
                                         (gap_blocks n_blocks blkno))"
    and e2: "same_environment w1 w2" by simp_all
  note px = wallog_page_returns[OF x]
  have e12: "same_environment w w2" using e1 e2 by (rule same_environment_trans)
  have e3: "same_environment w w3" using e12 px(2) by (rule same_environment_trans)
  have c1: "wallog_calls w1 = wallog_calls w" using e1 by (rule wallog_calls_env)
  have c2: "wallog_calls w2 = wallog_calls w" using e12 by (rule wallog_calls_env)
  from fin show "get_cached_relsize (smgr_rnode reln) forknum w' = Some (blkno + 1)"
    by (simp add: Let_def get_cached_relsize_def set_cached_relsize_def do_call_def)
  from fin gc px(1) c1 c2 same_environment_fields(4,6)[OF e3]
  show "calls w' = calls w1
           @ concat (map (\<lambda>b. wallog_calls w (smgr_rnode reln) forknum b buffer True)
                         (gap_blocks n_blocks blkno))
           @ wallog_calls w (smgr_rnode reln) forknum blkno buffer False
           @ [Call_lfc_write (smgr_rnode reln) forknum blkno buffer]
           @ publish_calls w (smgr_rnode reln) forknum blkno buffer"
    by (simp add: Let_def set_cached_relsize_def do_call_def publish_calls_def)
qed

lemma sample_extend_run:
  "\<exists>w'. neon_extend sample_rel MAIN_FORKNUM 102 [0, 0, 0] inflight_ring cached_world
            = Returns () (inflight_ring, w')
        \<and> calls w' = forced_log_calls cached_world (smgr_rnode sample_rel) MAIN_FORKNUM 100 [0, 0, 0]
                    @ forced_log_calls cached_world (smgr_rnode sample_rel) MAIN_FORKNUM 101 [0, 0, 0]
                    @ [Call_SetLastWrittenLSNForBlock 0 (smgr_rnode sample_rel) MAIN_FORKNUM 102,
                       Call_lfc_write (smgr_rnode sample_rel) MAIN_FORKNUM 102 [0, 0, 0],
                       Call_SetLastWrittenLSNForBlock 8000 (smgr_rnode sample_rel) MAIN_FORKNUM 102,
                       Call_SetLastWrittenLSNForRelation 8000 (smgr_rnode sample_rel) MAIN_FORKNUM]"
  by (simp add: neon_extend_def neon_nblocks_def sample_rel_def cached_world_def sample_world_def
      get_cached_relsize_def set_cached_relsize_def wallog_gap.simps neon_wallog_page_def Let_def
      log_newpage_copy_def XLogFlush_def do_call_def InvalidXLogRecPtr_def forced_log_calls_def
      PageIsEmptyHeapPage_def)

lemma sample_nblocks_run:
  "neon_nblocks sample_rel MAIN_FORKNUM inflight_ring cached_world
     = Returns 100 (inflight_ring, cached_world)"
  by (simp add: neon_nblocks_def sample_rel_def cached_world_def get_cached_relsize_def)

lemma gap_blocks_set: "set (gap_blocks n blkno) = {b. n \<le> b \<and> b < blkno}"
proof (intro set_eqI iffI)
  fix b assume "b \<in> set (gap_blocks n blkno)"
  then obtain k where k: "unat n \<le> k" "k < unat blkno" "b = of_nat k"
    by (auto simp: gap_blocks_def)
  have "unat blkno < 2 ^ 32" using unsigned_less[of blkno] by simp
  with k(2) have "k < 2 ^ 32" by simp
  then have "unat b = k" using k(3) by (simp add: unat_of_nat take_bit_nat_eq_self)
  with k(1,2) show "b \<in> {b. n \<le> b \<and> b < blkno}"
    by (simp add: word_le_nat_alt word_less_nat_alt)
next
  fix b assume "b \<in> {b. n \<le> b \<and> b < blkno}"
  then have "unat n \<le> unat b" "unat b < unat blkno"
    by (simp_all add: word_le_nat_alt word_less_nat_alt)
  then have "unat b \<in> {unat n ..< unat blkno}" by simp
  then have "(of_nat (unat b) :: BlockNumber) \<in> of_nat ` {unat n ..< unat blkno}" by (rule imageI)
  then show "b \<in> set (gap_blocks n blkno)" by (simp add: gap_blocks_def)
qed

text \<open>
  C6, as the code has it.  After \<open>neon_extend\<close> on a permanent relation returns, where
  \<open>neon_nblocks\<close> had answered \<open>n_blocks\<close>: the cached relation size is \<open>blkno + 1\<close>;
  the calls made since \<open>neon_nblocks\<close> are, in order, those of \<open>neon_wallog_page\<close> with
  \<open>force = true\<close> for every gap block, those of \<open>neon_wallog_page\<close> with \<open>force = false\<close>
  for the extended block, \<open>lfc_write\<close>, and the closing publication: when the page's
  LSN is zero, \<open>SetLastWrittenLSNForBlock\<close> and \<open>SetLastWrittenLSNForRelation\<close> with
  \<open>GetXLogInsertRecPtr\<close>, otherwise \<open>SetLastWrittenLSNForRelation\<close> alone with the
  page's LSN.  \<open>neon_wallog_page\<close> calls nothing while a shutdown is requested or WAL
  insertion is not allowed; so the gap blocks are known to have been logged (new-page
  record, flush, last-written LSN) only when no shutdown is requested, WAL insertion is
  allowed and recovery is not in progress.
\<close>

theorem neon_extend_postconditions:
  assumes "smgr_relpersistence reln = RELPERSISTENCE_PERMANENT"
    and "neon_nblocks reln forknum p w = Returns n_blocks (p1, w1)"
    and "neon_extend reln forknum blkno buffer p w = Returns u (p', w')"
  shows "get_cached_relsize (smgr_rnode reln) forknum w' = Some (blkno + 1)
       \<and> calls w' = calls w1
           @ concat (map (\<lambda>b. wallog_calls w (smgr_rnode reln) forknum b buffer True)
                         (gap_blocks n_blocks blkno))
           @ wallog_calls w (smgr_rnode reln) forknum blkno buffer False
           @ [Call_lfc_write (smgr_rnode reln) forknum blkno buffer]
           @ publish_calls w (smgr_rnode reln) forknum blkno buffer
       \<and> (can_log w \<longrightarrow>
            (\<forall>b. n_blocks \<le> b \<and> b < blkno \<longrightarrow>
                 set (forced_log_calls w (smgr_rnode reln) forknum b buffer)
                   \<subseteq> set (calls_since w1 w')))"
proof -
  note ec = extend_calls[OF assms]
  have "set (forced_log_calls w (smgr_rnode reln) forknum b buffer) \<subseteq> set (calls_since w1 w')"
    if cl: "can_log w" and b: "n_blocks \<le> b \<and> b < blkno" for b
  proof -
    from b have "b \<in> set (gap_blocks n_blocks blkno)" by (simp add: gap_blocks_set)
    moreover from cl have "wallog_calls w (smgr_rnode reln) forknum b buffer True
        = forced_log_calls w (smgr_rnode reln) forknum b buffer"
      by (simp add: wallog_calls_def can_log_def)
    ultimately have "set (forced_log_calls w (smgr_rnode reln) forknum b buffer)
        \<subseteq> set (concat (map (\<lambda>b. wallog_calls w (smgr_rnode reln) forknum b buffer True)
                         (gap_blocks n_blocks blkno)))"
      by auto
    moreover from ec(2) have "calls_since w1 w' =
        concat (map (\<lambda>b. wallog_calls w (smgr_rnode reln) forknum b buffer True)
                         (gap_blocks n_blocks blkno))
           @ wallog_calls w (smgr_rnode reln) forknum blkno buffer False
           @ [Call_lfc_write (smgr_rnode reln) forknum blkno buffer]
           @ publish_calls w (smgr_rnode reln) forknum blkno buffer"
      by (simp add: calls_since_def)
    ultimately show ?thesis by auto
  qed
  with ec show ?thesis by blast
qed

theorem neon_extend_postconditions_witness:
  "\<exists>w'. neon_extend sample_rel MAIN_FORKNUM 102 [0, 0, 0] inflight_ring cached_world
            = Returns () (inflight_ring, w')
        \<and> get_cached_relsize \<lparr>spcNode = 1663, dbNode = 12345, relNode = 16384\<rparr> MAIN_FORKNUM w'
            = Some 103
        \<and> calls w' =
            [Call_log_newpage \<lparr>spcNode = 1663, dbNode = 12345, relNode = 16384\<rparr> MAIN_FORKNUM 100 [0, 0, 0],
             Call_XLogFlush 4196,
             Call_SetLastWrittenLSNForBlock 4196 \<lparr>spcNode = 1663, dbNode = 12345, relNode = 16384\<rparr>
               MAIN_FORKNUM 100,
             Call_log_newpage \<lparr>spcNode = 1663, dbNode = 12345, relNode = 16384\<rparr> MAIN_FORKNUM 101 [0, 0, 0],
             Call_XLogFlush 4197,
             Call_SetLastWrittenLSNForBlock 4197 \<lparr>spcNode = 1663, dbNode = 12345, relNode = 16384\<rparr>
               MAIN_FORKNUM 101,
             Call_SetLastWrittenLSNForBlock 0 \<lparr>spcNode = 1663, dbNode = 12345, relNode = 16384\<rparr>
               MAIN_FORKNUM 102,
             Call_lfc_write \<lparr>spcNode = 1663, dbNode = 12345, relNode = 16384\<rparr> MAIN_FORKNUM 102 [0, 0, 0],
             Call_SetLastWrittenLSNForBlock 8000 \<lparr>spcNode = 1663, dbNode = 12345, relNode = 16384\<rparr>
               MAIN_FORKNUM 102,
             Call_SetLastWrittenLSNForRelation 8000 \<lparr>spcNode = 1663, dbNode = 12345, relNode = 16384\<rparr>
               MAIN_FORKNUM]"
proof -
  from sample_extend_run obtain w' where
    run: "neon_extend sample_rel MAIN_FORKNUM 102 [0, 0, 0] inflight_ring cached_world
            = Returns () (inflight_ring, w')"
    and cs: "calls w' = forced_log_calls cached_world (smgr_rnode sample_rel) MAIN_FORKNUM 100 [0, 0, 0]
                    @ forced_log_calls cached_world (smgr_rnode sample_rel) MAIN_FORKNUM 101 [0, 0, 0]
                    @ [Call_SetLastWrittenLSNForBlock 0 (smgr_rnode sample_rel) MAIN_FORKNUM 102,
                       Call_lfc_write (smgr_rnode sample_rel) MAIN_FORKNUM 102 [0, 0, 0],
                       Call_SetLastWrittenLSNForBlock 8000 (smgr_rnode sample_rel) MAIN_FORKNUM 102,
                       Call_SetLastWrittenLSNForRelation 8000 (smgr_rnode sample_rel) MAIN_FORKNUM]"
    by blast
  have perm: "smgr_relpersistence sample_rel = RELPERSISTENCE_PERMANENT"
    by (simp add: sample_rel_def)
  from neon_extend_postconditions[OF perm sample_nblocks_run run]
  have "get_cached_relsize (smgr_rnode sample_rel) MAIN_FORKNUM w' = Some 103" by simp
  with run cs show ?thesis
    by (intro exI[of _ w'])
       (simp add: sample_rel_def forced_log_calls_def cached_world_def sample_world_def)
qed

text \<open>
  C6 as stated fails.  While a shutdown is requested, extending the sample relation
  (100 blocks long) at block 102 with a page whose LSN is 7 returns having called only
  \<open>lfc_write\<close> and \<open>SetLastWrittenLSNForRelation\<close>: neither gap block 100 nor 101 has
  been logged, and no last-written LSN has been published for block 102.
\<close>

theorem neon_extend_counterexample:
  "neon_extend sample_rel MAIN_FORKNUM 102 [7] inflight_ring shutdown_world
     = Returns ()
         (inflight_ring,
          shutdown_world
            \<lparr>relsize_cache := [(\<lparr>spcNode = 1663, dbNode = 12345, relNode = 16384\<rparr>, MAIN_FORKNUM) \<mapsto> 103],
             calls := [Call_lfc_write \<lparr>spcNode = 1663, dbNode = 12345, relNode = 16384\<rparr> MAIN_FORKNUM 102 [7],
                       Call_SetLastWrittenLSNForRelation 7
                         \<lparr>spcNode = 1663, dbNode = 12345, relNode = 16384\<rparr> MAIN_FORKNUM]\<rparr>)"
  by (simp add: neon_extend_def neon_nblocks_def sample_rel_def shutdown_world_def cached_world_def
      sample_world_def get_cached_relsize_def set_cached_relsize_def wallog_gap.simps
      neon_wallog_page_def Let_def do_call_def InvalidXLogRecPtr_def)

end
